theory Spec2Isabelle
  imports Main "HOL-Library.Word" "HOL-Library.Multiset"
begin

section \<open>Chat catch-up of the Chime plugin (chat.c)\<close>

text \<open>
  The development follows \<^verbatim>\<open>chat.c\<close>: a chat is joined, its history is fetched page
  by page into a hash table keyed by message id while the live feed writes into the
  same table, the table is drained in time order when the last page has arrived, and
  from then on live events are delivered as they come.

  The C code runs inside one GLib main loop, so every callback is a function from the
  state of the connection to its next state. Pointers to chats are addresses into an
  explicit store; a dereference of a freed or null pointer is a \<open>fault\<close>. The keys of
  the table are pointers into the JSON nodes, and the table records for each key
  whether the node it points into still lives.
\<close>

subsection \<open>JSON nodes\<close>

datatype json =
    JNull
  | JBool bool
  | JInt int
  | JString string
  | JArray "json list"
  | JObject "(string \<times> json) list"

text \<open>
  \<^verbatim>\<open>json_object_get_member(json_node_get_object(node), name)\<close>: json-glib returns
  NULL from \<^verbatim>\<open>json_node_get_object\<close> for a node that holds no object, and NULL from
  \<^verbatim>\<open>json_object_get_member\<close> for a NULL object or a missing member.
\<close>

fun json_object_get_member :: "json \<Rightarrow> string \<Rightarrow> json option" where
  "json_object_get_member (JObject ms) name = map_of ms name"
| "json_object_get_member _ name = None"

text \<open>
  \<^verbatim>\<open>json_node_get_array\<close>, as \<^verbatim>\<open>json_array_foreach_element\<close> sees its result: the
  elements of an array node, and none for NULL or for a node that holds no array.
\<close>

fun json_array_elements :: "json option \<Rightarrow> json list" where
  "json_array_elements (Some (JArray xs)) = xs"
| "json_array_elements _ = []"

text \<open>
  Modelled from the spec: \<^verbatim>\<open>parse_string\<close> is declared in \<^verbatim>\<open>chime.h\<close> and defined
  outside \<^verbatim>\<open>chat.c\<close>. The core reads a decoded record through its fields (message id,
  body, creation time): \<open>parse_string node name\<close> is the string held by member \<open>name\<close>
  of the object \<open>node\<close>, and fails when the node is no object, the member is missing
  or it holds no string.
\<close>

definition parse_string :: "json \<Rightarrow> string \<Rightarrow> string option" where
  "parse_string node name =
     (case json_object_get_member node name of
        Some (JString str) \<Rightarrow> Some str
      | _ \<Rightarrow> None)"

text \<open>
  What undefined behaviour of the C code looks like in the model: a null pointer or a
  pointer into freed memory is dereferenced, or a pointer is used at the wrong type.
\<close>

datatype fault = NullPointer | UseAfterFree | BadCast

subsection \<open>Timestamps and the sort of the queued messages\<close>

text \<open>
  \<^verbatim>\<open>GTimeVal\<close> has two \<^verbatim>\<open>glong\<close> fields. \<^verbatim>\<open>g_time_val_from_iso8601\<close> belongs to
  GLib; it is a parameter \<open>from_iso\<close> of everything that parses a timestamp, \<open>None\<close> being
  its FALSE.
\<close>

record GTimeVal =
  tv_sec :: int
  tv_usec :: int

type_synonym iso8601 = "string \<Rightarrow> GTimeVal option"

record msg_sort =
  tm :: GTimeVal
  node :: json

definition compare_ms :: "msg_sort \<Rightarrow> msg_sort \<Rightarrow> int" where
  "compare_ms a b =
     (if tv_sec (tm a) > tv_sec (tm b) then 1
      else if tv_sec (tm a) = tv_sec (tm b) \<and> tv_usec (tm a) > tv_usec (tm b) then 1
      else 0)"

text \<open>
  \<^verbatim>\<open>g_list_insert_sorted(list, data, func)\<close> of GLib walks the list while
  \<open>func data elem > 0\<close> and links the new element in front of the first element
  where that fails, or at the end.
\<close>

fun g_list_insert_sorted :: "'a list \<Rightarrow> 'a \<Rightarrow> ('a \<Rightarrow> 'a \<Rightarrow> int) \<Rightarrow> 'a list" where
  "g_list_insert_sorted [] d func = [d]"
| "g_list_insert_sorted (x # xs) d func =
     (if func d x > 0 then x # g_list_insert_sorted xs d func else d # x # xs)"

text \<open>
  The callback of the drain. It returns TRUE in every branch (the entry is removed
  from the table) together with the list behind \<^verbatim>\<open>_list\<close>.
\<close>

definition insert_queued_msg :: "iso8601 \<Rightarrow> string \<Rightarrow> json \<Rightarrow> msg_sort list \<Rightarrow> bool \<times> msg_sort list" where
  "insert_queued_msg from_iso key nd l =
     (case parse_string nd ''CreatedOn'' of
        Some str \<Rightarrow>
          (case from_iso str of
             None \<Rightarrow> (True, l)
           | Some t \<Rightarrow> (True, g_list_insert_sorted l \<lparr>tm = t, node = nd\<rparr> compare_ms))
      | None \<Rightarrow> (True, l))"

subsection \<open>The messages table\<close>

text \<open>
  \<^verbatim>\<open>chat->messages\<close> is made by
  \<^verbatim>\<open>g_hash_table_new_full(g_str_hash, g_str_equal, NULL, json_node_unref)\<close>: the table
  owns a reference to every value and owns no key. The key that \<^verbatim>\<open>chat.c\<close> hands to
  \<^verbatim>\<open>g_hash_table_insert\<close> is the \<^verbatim>\<open>MessageId\<close> string inside the very node it
  inserts, so a key is a pointer into a node and is good for as long as that node
  lives. A node lives while the tree of its page or event has not been released, or
  while a table holds it as a value.

  An entry records the string of its key, where the key points, whether its value
  came with the page or event that is being handled, and the value:
  \<^item> \<open>KeyInValue\<close>: the key points into the value of the entry;
  \<^item> \<open>KeyInTree\<close>: the key points into a node that the table has dropped and that
    only the tree in hand keeps alive;
  \<^item> \<open>KeyFreed\<close>: the key points into freed memory.
  A node is taken to be held by its own tree and by one entry of one table. Where
  the same node is stored a second time, under its own key again or in the table of
  another chat, the model frees a key earlier than the code does; it never keeps a
  key longer. Strings are taken to hold no NUL byte.

  The order of the list is the order in which \<^verbatim>\<open>g_hash_table_foreach_remove\<close> meets
  the entries; GLib leaves it unspecified, and no theorem below depends on it.
\<close>

datatype key_state = KeyInValue | KeyInTree | KeyFreed

record entry =
  e_key :: string
  e_state :: key_state
  e_fresh :: bool
  e_value :: json

type_synonym GHashTable = "entry list"

text \<open>
  \<^verbatim>\<open>g_str_hash\<close> of GLib: the hash starts at 5381 and becomes \<open>hash * 33 + c\<close> for
  every byte \<open>c\<close>, read as a \<^verbatim>\<open>signed char\<close>, in 32 bits. The table stores with an
  entry the hash of its key, with 2 in place of the reserved values 0 and 1.
\<close>

definition g_str_hash :: "string \<Rightarrow> 32 word" where
  "g_str_hash str = fold (\<lambda>c h. h * 33 + word_of_int (sint (of_char c :: 8 word))) str 5381"

definition key_hash :: "string \<Rightarrow> 32 word" where
  "key_hash str = (if g_str_hash str < 2 then 2 else g_str_hash str)"

text \<open>
  \<^verbatim>\<open>g_hash_table_insert\<close> first looks the new key up: GLib calls \<^verbatim>\<open>g_str_equal\<close> on
  the key of an entry whose stored hash is that of the new key, one such entry after
  the other until a key is equal. Which of them it meets before the equal one depends
  on the layout of the table, so the lookup is taken to read the key of every entry
  with that hash. Reading a key that points into freed memory is a fault: the model
  may report a fault that a given layout avoids, and it misses none.
\<close>

definition g_hash_table_lookup_node :: "GHashTable \<Rightarrow> string \<Rightarrow> fault option" where
  "g_hash_table_lookup_node h k =
     (if list_ex (\<lambda>e. key_hash (e_key e) = key_hash k \<and> e_state e = KeyFreed) h
      then Some UseAfterFree else None)"

text \<open>
  When an equal key is found, GLib keeps the old key, puts the new value in place of
  the old one and drops its reference to the old value: a key that pointed into the
  old value now points into a node that lives only if its tree is still in hand.
  Otherwise a new entry is added, its key pointing into its value.
\<close>

fun g_hash_table_insert_node :: "GHashTable \<Rightarrow> string \<Rightarrow> json \<Rightarrow> GHashTable" where
  "g_hash_table_insert_node [] k v =
     [\<lparr>e_key = k, e_state = KeyInValue, e_fresh = True, e_value = v\<rparr>]"
| "g_hash_table_insert_node (e # h) k v =
     (if e_key e = k then
        e\<lparr>e_state :=
            (if e_state e = KeyInValue
             then (if e_fresh e then KeyInTree else KeyFreed)
             else e_state e),
          e_fresh := True, e_value := v\<rparr> # h
      else e # g_hash_table_insert_node h k v)"

definition g_hash_table_insert :: "GHashTable \<Rightarrow> string \<Rightarrow> json \<Rightarrow> fault + GHashTable" where
  "g_hash_table_insert h k v =
     (case g_hash_table_lookup_node h k of
        Some f \<Rightarrow> Inl f
      | None \<Rightarrow> Inr (g_hash_table_insert_node h k v))"

text \<open>
  The tree of a page or of an event is released when its callback has returned:
  nothing that the table still holds is fresh any more, and a key that only the tree
  kept alive is freed.
\<close>

definition release_entry :: "entry \<Rightarrow> entry" where
  "release_entry e =
     e\<lparr>e_state := (if e_state e = KeyInTree then KeyFreed else e_state e), e_fresh := False\<rparr>"

text \<open>
  \<^verbatim>\<open>g_hash_table_foreach_remove(table, func, user_data)\<close>: \<open>func\<close> sees every entry
  and the entries for which it returns TRUE are removed. The result is the table that
  is left and the user data after the last call. The key is handed over as a
  pointer; GLib does not read it.
\<close>

fun g_hash_table_foreach_remove ::
  "GHashTable \<Rightarrow> (string \<Rightarrow> json \<Rightarrow> 'u \<Rightarrow> bool \<times> 'u) \<Rightarrow> 'u \<Rightarrow> GHashTable \<times> 'u" where
  "g_hash_table_foreach_remove [] func u = ([], u)"
| "g_hash_table_foreach_remove (e # h) func u =
     (case func (e_key e) (e_value e) u of
        (rm, u') \<Rightarrow>
          (case g_hash_table_foreach_remove h func u' of
             (h', u'') \<Rightarrow> (if rm then h' else e # h', u'')))"

text \<open>
  \<open>hash\<close> is \<^verbatim>\<open>chat->messages\<close>, which may be NULL: \<^verbatim>\<open>g_hash_table_insert\<close> on a
  NULL table does nothing.
\<close>

definition one_msg_cb :: "json \<Rightarrow> GHashTable option \<Rightarrow> fault + GHashTable option" where
  "one_msg_cb nd hash =
     (case parse_string nd ''MessageId'' of
        Some i \<Rightarrow>
          (case hash of
             None \<Rightarrow> Inr None
           | Some h \<Rightarrow>
               (case g_hash_table_insert h i nd of
                  Inl f \<Rightarrow> Inl f
                | Inr h' \<Rightarrow> Inr (Some h')))
      | None \<Rightarrow> Inr hash)"

text \<open>
  \<^verbatim>\<open>json_array_foreach_element(array, func, data)\<close> calls \<open>func\<close> on the elements by
  rising index.
\<close>

fun json_array_foreach_element ::
  "json list \<Rightarrow> (json \<Rightarrow> 'u \<Rightarrow> fault + 'u) \<Rightarrow> 'u \<Rightarrow> fault + 'u" where
  "json_array_foreach_element [] func u = Inr u"
| "json_array_foreach_element (x # xs) func u =
     (case func x u of
        Inl f \<Rightarrow> Inl f
      | Inr u' \<Rightarrow> json_array_foreach_element xs func u')"

subsection \<open>Rooms, chats and the connection\<close>

text \<open>
  \<^verbatim>\<open>struct chime_room\<close> and \<^verbatim>\<open>struct chime_connection\<close> are declared in
  \<^verbatim>\<open>chime.h\<close>, outside \<^verbatim>\<open>chat.c\<close>; the records \<open>chime_room\<close> and
  \<open>chime_connection\<close> hold the fields that \<^verbatim>\<open>chat.c\<close> reads and writes, with the
  types at which it uses them.
  \<open>room_id\<close> is the string behind \<^verbatim>\<open>room->id\<close> and \<open>room_id_addr\<close> the address
  that the pointer \<^verbatim>\<open>room->id\<close> holds. Rooms are created and freed outside
  \<^verbatim>\<open>chat.c\<close>, so a room pointer is an index into a total store \<open>rooms\<close>; a chat
  pointer is an address of the partial store \<open>chats\<close>, where \<^verbatim>\<open>g_free\<close> leaves
  \<open>None\<close>. \<open>brk\<close> is the next address \<^verbatim>\<open>g_new0\<close> hands out; addresses are
  not reused.
\<close>

record chime_room =
  room_id :: string
  room_id_addr :: nat
  channel :: string
  chat :: "nat option"

record chime_chat =
  room :: nat
  conv :: int
  msgs_msg :: "nat option"
  members_msg :: "nat option"
  got_members :: bool
  got_msgs :: bool
  messages :: "GHashTable option"
  members :: "GHashTable option"

text \<open>The user data of a callback: a \<^verbatim>\<open>gpointer\<close> to a chat or to a room.\<close>

datatype gpointer = ChatPtr nat | RoomPtr nat

record SoupMessage =
  uri :: string
  query :: "(string \<times> string) list"
  cb_data :: nat

text \<open>
  One call of \<^verbatim>\<open>serv_got_chat_in\<close>. \<open>d_node\<close> is no argument of the call: it is
  the node on whose behalf \<^verbatim>\<open>chat_deliver_msg\<close> made it, kept so that a theorem can
  name the message that was delivered.
\<close>

record delivery =
  d_id :: int
  d_who :: string
  d_message :: string
  d_mtime :: int
  d_node :: json

record chime_connection =
  rooms_by_id :: "string \<rightharpoonup> nat"
  rooms :: "nat \<Rightarrow> chime_room"
  chats :: "nat \<rightharpoonup> chime_chat"
  brk :: nat
  live_chats :: "nat \<rightharpoonup> nat"
  chat_id :: int
  messaging_url :: string
  account :: "string \<rightharpoonup> string"
  soup_sess :: "(nat \<times> SoupMessage) list"
  next_msg :: nat
  subscriptions :: "(string \<times> gpointer) list"
  convs :: "(int \<times> string option) list"
  delivered :: "delivery list"

text \<open>
  \<^verbatim>\<open>GUINT_TO_POINTER(u)\<close> is \<^verbatim>\<open>(gpointer) (gulong) (u)\<close>: the argument, an \<^verbatim>\<open>int\<close> or
  a pointer, becomes a 64-bit value; the keys of \<open>live_chats\<close> are these values.
\<close>

definition GUINT_TO_POINTER :: "int \<Rightarrow> nat" where
  "GUINT_TO_POINTER u = unat (word_of_int u :: 64 word)"

text \<open>The conversion of a \<^verbatim>\<open>glong\<close> or \<^verbatim>\<open>time_t\<close> to the \<^verbatim>\<open>int msg_time\<close>.\<close>

definition to_int :: "int \<Rightarrow> int" where
  "to_int x = sint (word_of_int x :: 32 word)"

subsection \<open>The collaborators\<close>

text \<open>
  Modelled from the spec: \<^verbatim>\<open>chime_queue_http_request\<close> is defined outside
  \<^verbatim>\<open>chat.c\<close>. The core needs of the transport that it issues a paginated GET that
  can be cancelled and later hands the page to the callback: the request waits in
  \<open>soup_sess\<close> under a fresh handle, with the user data of its callback, which in
  \<^verbatim>\<open>chat.c\<close> is always \<^verbatim>\<open>fetch_msgs_cb\<close>.
\<close>

definition chime_queue_http_request :: "chime_connection \<Rightarrow> SoupMessage \<Rightarrow> nat \<times> chime_connection" where
  "chime_queue_http_request cxn m =
     (next_msg cxn,
      cxn\<lparr>soup_sess := soup_sess cxn @ [(next_msg cxn, m)], next_msg := Suc (next_msg cxn)\<rparr>)"

text \<open>
  \<^verbatim>\<open>soup_session_cancel_message\<close> of libsoup, as the spec asks of a cancellation: the
  outstanding call is aborted and its callback suppressed. The request leaves
  \<open>soup_sess\<close>.
\<close>

definition soup_session_cancel_message :: "chime_connection \<Rightarrow> nat \<Rightarrow> chime_connection" where
  "soup_session_cancel_message cxn h =
     cxn\<lparr>soup_sess := filter (\<lambda>(h', m). h' \<noteq> h) (soup_sess cxn)\<rparr>"

text \<open>
  Modelled from the spec: \<^verbatim>\<open>chime_jugg_subscribe\<close> and \<^verbatim>\<open>chime_jugg_unsubscribe\<close>
  are defined outside \<^verbatim>\<open>chat.c\<close>. The push transport offers
  \<open>subscribe(topic, handler)\<close> and \<open>unsubscribe(topic, handler)\<close>. A handler is a
  callback together with its user data; in \<^verbatim>\<open>chat.c\<close> the callback is
  \<^verbatim>\<open>chat_msg_cb\<close> in every call, so a subscription is a channel and the user data.
  Unsubscribing removes the subscription of that handler on that channel and no
  other.
\<close>

definition chime_jugg_subscribe :: "chime_connection \<Rightarrow> string \<Rightarrow> gpointer \<Rightarrow> chime_connection" where
  "chime_jugg_subscribe cxn chan d = cxn\<lparr>subscriptions := subscriptions cxn @ [(chan, d)]\<rparr>"

definition chime_jugg_unsubscribe :: "chime_connection \<Rightarrow> string \<Rightarrow> gpointer \<Rightarrow> chime_connection" where
  "chime_jugg_unsubscribe cxn chan d = cxn\<lparr>subscriptions := remove1 (chan, d) (subscriptions cxn)\<rparr>"

text \<open>
  The account store of libpurple: a string value keyed by name;
  \<^verbatim>\<open>purple_account_get_string\<close> is called with the default NULL.
\<close>

definition purple_account_get_string :: "chime_connection \<Rightarrow> string \<Rightarrow> string option" where
  "purple_account_get_string cxn name = account cxn name"

definition purple_account_set_string :: "chime_connection \<Rightarrow> string \<Rightarrow> string \<Rightarrow> chime_connection" where
  "purple_account_set_string cxn name v = cxn\<lparr>account := (account cxn)(name \<mapsto> v)\<rparr>"

text \<open>
  The presentation sink of libpurple. \<^verbatim>\<open>serv_got_joined_chat\<close> opens the conversation
  with the given id, \<^verbatim>\<open>serv_got_chat_left\<close> closes it, and \<^verbatim>\<open>serv_got_chat_in\<close> shows
  one message; its flags argument is \<^verbatim>\<open>PURPLE_MESSAGE_RECV\<close> in every call and is
  left out.
\<close>

definition serv_got_joined_chat :: "chime_connection \<Rightarrow> int \<Rightarrow> string option \<Rightarrow> chime_connection" where
  "serv_got_joined_chat cxn i name = cxn\<lparr>convs := convs cxn @ [(i, name)]\<rparr>"

definition serv_got_chat_left :: "chime_connection \<Rightarrow> int \<Rightarrow> chime_connection" where
  "serv_got_chat_left cxn i = cxn\<lparr>convs := filter (\<lambda>(j, name). j \<noteq> i) (convs cxn)\<rparr>"

definition serv_got_chat_in :: "chime_connection \<Rightarrow> int \<Rightarrow> string \<Rightarrow> string \<Rightarrow> int \<Rightarrow> json \<Rightarrow> chime_connection" where
  "serv_got_chat_in cxn i who msg mtime nd =
     cxn\<lparr>delivered := delivered cxn @
       [\<lparr>d_id = i, d_who = who, d_message = msg, d_mtime = mtime, d_node = nd\<rparr>]\<rparr>"

text \<open>
  \<^verbatim>\<open>soup_uri_set_query_from_fields\<close> reads name/value pairs up to the first NULL
  name.
\<close>

fun soup_uri_set_query_from_fields :: "string option list \<Rightarrow> (string \<times> string) list" where
  "soup_uri_set_query_from_fields (Some name # Some v # rest) =
     (name, v) # soup_uri_set_query_from_fields rest"
| "soup_uri_set_query_from_fields _ = []"

subsection \<open>Delivery\<close>

text \<open>
  \<open>c\<close> is the chat that the pointer \<^verbatim>\<open>chat\<close> refers to, \<open>now\<close> the reading of
  \<^verbatim>\<open>time(NULL)\<close>.
\<close>

definition chat_deliver_msg ::
  "iso8601 \<Rightarrow> int \<Rightarrow> chime_connection \<Rightarrow> chime_chat \<Rightarrow> json \<Rightarrow> int \<Rightarrow> chime_connection" where
  "chat_deliver_msg from_iso now cxn c nd msg_time =
     (let msg_time' =
        (if msg_time = 0 then
           (case parse_string nd ''CreatedOn'' of
              None \<Rightarrow> to_int now
            | Some str \<Rightarrow>
                (case from_iso str of
                   None \<Rightarrow> to_int now
                 | Some tv \<Rightarrow> to_int (tv_sec tv)))
         else msg_time)
      in case parse_string nd ''Content'' of
           Some str \<Rightarrow> serv_got_chat_in cxn (conv c) ''someone'' str msg_time' nd
         | None \<Rightarrow> cxn)"

definition chat_msg_cb ::
  "iso8601 \<Rightarrow> int \<Rightarrow> chime_connection \<Rightarrow> gpointer \<Rightarrow> json \<Rightarrow> fault + chime_connection" where
  "chat_msg_cb from_iso now cxn d nd =
     (case json_object_get_member nd ''record'' of
        None \<Rightarrow> Inr cxn
      | Some rec \<Rightarrow>
          (case d of
             RoomPtr r \<Rightarrow> Inl BadCast
           | ChatPtr p \<Rightarrow>
               (case chats cxn p of
                  None \<Rightarrow> Inl UseAfterFree
                | Some c \<Rightarrow>
                    (case messages c of
                       Some h \<Rightarrow>
                         (case parse_string rec ''MessageId'' of
                            Some i \<Rightarrow>
                              (case g_hash_table_insert h i nd of
                                 Inl f \<Rightarrow> Inl f
                               | Inr h' \<Rightarrow>
                                   Inr (cxn\<lparr>chats := (chats cxn)(p \<mapsto>
                                          c\<lparr>messages := Some h'\<rparr>)\<rparr>))
                          | None \<Rightarrow> Inr cxn)
                     | None \<Rightarrow> Inr (chat_deliver_msg from_iso now cxn c rec (to_int now))))))"

subsection \<open>Teardown\<close>

text \<open>
  The two cancelled handles are also cleared in the chat, and its tables destroyed,
  before the chat itself is freed; the store keeps nothing of a freed chat.
\<close>

definition chime_destroy_chat :: "chime_connection \<Rightarrow> nat \<Rightarrow> fault + chime_connection" where
  "chime_destroy_chat cxn p =
     (case chats cxn p of
        None \<Rightarrow> Inl UseAfterFree
      | Some c \<Rightarrow>
          (let r = room c in
           case chat (rooms cxn r) of
             None \<Rightarrow> Inl NullPointer
           | Some q \<Rightarrow>
               (case chats cxn q of
                  None \<Rightarrow> Inl UseAfterFree
                | Some rc \<Rightarrow>
                    (let i = conv rc;
                         cxn1 = (case msgs_msg c of
                                   Some m \<Rightarrow> soup_session_cancel_message cxn m
                                 | None \<Rightarrow> cxn);
                         cxn2 = (case members_msg c of
                                   Some m \<Rightarrow> soup_session_cancel_message cxn1 m
                                 | None \<Rightarrow> cxn1);
                         cxn3 = chime_jugg_unsubscribe cxn2 (channel (rooms cxn2 r)) (RoomPtr r);
                         cxn4 = serv_got_chat_left cxn3 i;
                         cxn5 = cxn4\<lparr>live_chats := (live_chats cxn4)
                                  (GUINT_TO_POINTER (int (room_id_addr (rooms cxn4 r))) := None)\<rparr>;
                         cxn6 = cxn5\<lparr>chats := (chats cxn5)(p := None)\<rparr>;
                         cxn7 = cxn6\<lparr>rooms := (rooms cxn6)(r := (rooms cxn6 r)\<lparr>chat := None\<rparr>)\<rparr>
                     in Inr cxn7))))"

subsection \<open>The drain\<close>

text \<open>
  The \<^verbatim>\<open>while (l)\<close> loop of \<^verbatim>\<open>chime_complete_chat_setup\<close>. Every \<^verbatim>\<open>msg_sort\<close> is an
  allocation of its own, so \<^verbatim>\<open>g_list_remove(l, ms)\<close> unlinks the head.
\<close>

fun deliver_queued ::
  "iso8601 \<Rightarrow> int \<Rightarrow> chime_connection \<Rightarrow> chime_chat \<Rightarrow> msg_sort list \<Rightarrow> chime_connection" where
  "deliver_queued from_iso now cxn c [] = cxn"
| "deliver_queued from_iso now cxn c (ms # l) =
     (let nd = node ms;
          cxn1 = chat_deliver_msg from_iso now cxn c nd (to_int (tv_sec (tm ms)));
          cxn2 = (if l = [] then
                    (case parse_string nd ''CreatedOn'' of
                       Some t \<Rightarrow>
                         purple_account_set_string cxn1
                           (''last-room-'' @ room_id (rooms cxn1 (room c))) t
                     | None \<Rightarrow> cxn1)
                  else cxn1)
      in deliver_queued from_iso now cxn2 c l)"

text \<open>
  The list that \<^verbatim>\<open>g_hash_table_foreach_remove(chat->messages, insert_queued_msg, &l)\<close>
  builds; on a NULL table GLib calls nothing.
\<close>

definition queued_msgs :: "iso8601 \<Rightarrow> GHashTable option \<Rightarrow> msg_sort list" where
  "queued_msgs from_iso t =
     (case t of
        Some h \<Rightarrow> snd (g_hash_table_foreach_remove h (insert_queued_msg from_iso) [])
      | None \<Rightarrow> [])"

definition chime_complete_chat_setup ::
  "iso8601 \<Rightarrow> int \<Rightarrow> chime_connection \<Rightarrow> nat \<Rightarrow> fault + chime_connection" where
  "chime_complete_chat_setup from_iso now cxn p =
     (case chats cxn p of
        None \<Rightarrow> Inl UseAfterFree
      | Some c \<Rightarrow>
          (let l = queued_msgs from_iso (messages c);
               c' = c\<lparr>messages := None\<rparr>;
               cxn1 = cxn\<lparr>chats := (chats cxn)(p \<mapsto> c')\<rparr>
           in Inr (deliver_queued from_iso now cxn1 c' l)))"

subsection \<open>The history fetch\<close>

definition fetch_chat_messages ::
  "chime_connection \<Rightarrow> nat \<Rightarrow> string option \<Rightarrow> fault + chime_connection" where
  "fetch_chat_messages cxn p next_token =
     (case chats cxn p of
        None \<Rightarrow> Inl UseAfterFree
      | Some c \<Rightarrow>
          (let r = rooms cxn (room c);
               u = messaging_url cxn @ ''/rooms/'' @ room_id r @ ''/messages'';
               last_msgs_key = ''last-room-'' @ room_id r;
               after = purple_account_get_string cxn last_msgs_key;
               opts0 = (case after of
                          Some a \<Rightarrow> if a \<noteq> [] then [Some ''after'', Some a] else []
                        | None \<Rightarrow> []);
               opts1 = opts0 @ (case next_token of
                                  Some t \<Rightarrow> [Some ''next-token'', Some t]
                                | None \<Rightarrow> []);
               opts = opts1 @ replicate (4 - length opts1) None;
               q = soup_uri_set_query_from_fields
                     ([Some ''max-results'', Some ''50''] @ opts @ [None])
           in case chime_queue_http_request cxn \<lparr>uri = u, query = q, cb_data = p\<rparr> of
                (m, cxn1) \<Rightarrow>
                  Inr (cxn1\<lparr>chats := (chats cxn1)(p \<mapsto> c\<lparr>msgs_msg := Some m\<rparr>)\<rparr>)))"

definition fetch_msgs_cb ::
  "iso8601 \<Rightarrow> int \<Rightarrow> chime_connection \<Rightarrow> json \<Rightarrow> nat \<Rightarrow> fault + chime_connection" where
  "fetch_msgs_cb from_iso now cxn nd p =
     (case chats cxn p of
        None \<Rightarrow> Inl UseAfterFree
      | Some c \<Rightarrow>
          (let msgs_array = json_array_elements (json_object_get_member nd ''Messages'');
               c1 = c\<lparr>msgs_msg := None\<rparr>
           in case json_array_foreach_element msgs_array one_msg_cb (messages c1) of
                Inl f \<Rightarrow> Inl f
              | Inr t \<Rightarrow>
                  (let c2 = c1\<lparr>messages := t\<rparr>;
                       cxn1 = cxn\<lparr>chats := (chats cxn)(p \<mapsto> c2)\<rparr>
                   in case parse_string nd ''NextToken'' of
                        Some next_token \<Rightarrow> fetch_chat_messages cxn1 p (Some next_token)
                      | None \<Rightarrow> chime_complete_chat_setup from_iso now cxn1 p)))"

subsection \<open>Join and leave\<close>

text \<open>
  \<open>rooms_by_id\<close> is keyed by strings: a lookup with the NULL that a missing
  \<^verbatim>\<open>RoomId\<close> gives dereferences it.
\<close>

definition chime_purple_join_chat ::
  "chime_connection \<Rightarrow> (string \<rightharpoonup> string) \<Rightarrow> fault + chime_connection" where
  "chime_purple_join_chat cxn data =
     (case data ''RoomId'' of
        None \<Rightarrow> Inl NullPointer
      | Some roomid \<Rightarrow>
          (case rooms_by_id cxn roomid of
             None \<Rightarrow> Inr cxn
           | Some r \<Rightarrow>
               if chat (rooms cxn r) \<noteq> None then Inr cxn
               else
                 (let p = brk cxn;
                      i = chat_id cxn + 1;
                      c = \<lparr>room = r, conv = i, msgs_msg = None, members_msg = None,
                           got_members = False, got_msgs = False,
                           messages = Some [], members = None\<rparr>;
                      cxn1 = cxn\<lparr>brk := Suc p,
                                 chats := (chats cxn)(p \<mapsto> c),
                                 rooms := (rooms cxn)(r := (rooms cxn r)\<lparr>chat := Some p\<rparr>),
                                 chat_id := i\<rparr>;
                      cxn2 = serv_got_joined_chat cxn1 i (data ''Name'');
                      cxn3 = cxn2\<lparr>live_chats := (live_chats cxn2)(GUINT_TO_POINTER i \<mapsto> p)\<rparr>;
                      cxn4 = chime_jugg_subscribe cxn3 (channel (rooms cxn3 r)) (ChatPtr p)
                  in fetch_chat_messages cxn4 p None)))"

definition chime_purple_chat_leave :: "chime_connection \<Rightarrow> int \<Rightarrow> fault + chime_connection" where
  "chime_purple_chat_leave cxn i =
     (case live_chats cxn (GUINT_TO_POINTER i) of
        None \<Rightarrow> Inl NullPointer
      | Some p \<Rightarrow> chime_destroy_chat cxn p)"

subsection \<open>The main loop\<close>

text \<open>
  Modelled from the spec: what the collaborators call. A page that arrives for a
  request in flight takes the request out of \<open>soup_sess\<close> and calls
  \<^verbatim>\<open>fetch_msgs_cb\<close> with the user data of the request; a page for a request that is
  not in flight calls nothing. A push event on a channel calls \<^verbatim>\<open>chat_msg_cb\<close> once
  for every subscription on that channel, with the user data of the subscription.
  Each callback event carries the reading of the clock. The node that a callback is
  given belongs to the caller, which is why \<^verbatim>\<open>chat.c\<close> takes a reference of its own
  to every node it stores; when the callbacks of a page or of an event have returned,
  the caller releases the tree.
\<close>

datatype event =
    Join "(string \<times> string) list"
  | Leave int
  | Page nat json int
  | Push string json int

fun jugg_dispatch ::
  "iso8601 \<Rightarrow> int \<Rightarrow> gpointer list \<Rightarrow> json \<Rightarrow> chime_connection \<Rightarrow> fault + chime_connection" where
  "jugg_dispatch from_iso now [] nd cxn = Inr cxn"
| "jugg_dispatch from_iso now (d # ds) nd cxn =
     (case chat_msg_cb from_iso now cxn d nd of
        Inl f \<Rightarrow> Inl f
      | Inr cxn' \<Rightarrow> jugg_dispatch from_iso now ds nd cxn')"

definition release_tree :: "chime_connection \<Rightarrow> chime_connection" where
  "release_tree cxn =
     cxn\<lparr>chats := (\<lambda>p. map_option
        (\<lambda>c. c\<lparr>messages := map_option (map release_entry) (messages c)\<rparr>) (chats cxn p))\<rparr>"

definition released :: "fault + chime_connection \<Rightarrow> fault + chime_connection" where
  "released res = (case res of Inl f \<Rightarrow> Inl f | Inr cxn \<Rightarrow> Inr (release_tree cxn))"

fun step :: "iso8601 \<Rightarrow> chime_connection \<Rightarrow> event \<Rightarrow> fault + chime_connection" where
  "step from_iso cxn (Join data) = chime_purple_join_chat cxn (map_of data)"
| "step from_iso cxn (Leave i) = chime_purple_chat_leave cxn i"
| "step from_iso cxn (Page m nd now) =
     (case map_of (soup_sess cxn) m of
        None \<Rightarrow> Inr cxn
      | Some msg \<Rightarrow>
          released
            (fetch_msgs_cb from_iso now
               (cxn\<lparr>soup_sess := filter (\<lambda>(m', x). m' \<noteq> m) (soup_sess cxn)\<rparr>) nd
               (cb_data msg)))"
| "step from_iso cxn (Push chan nd now) =
     released
       (jugg_dispatch from_iso now
          (map snd (filter (\<lambda>(ch, d). ch = chan) (subscriptions cxn))) nd cxn)"

fun run :: "iso8601 \<Rightarrow> chime_connection \<Rightarrow> event list \<Rightarrow> fault + chime_connection" where
  "run from_iso cxn [] = Inr cxn"
| "run from_iso cxn (e # es) =
     (case step from_iso cxn e of
        Inl f \<Rightarrow> Inl f
      | Inr cxn' \<Rightarrow> run from_iso cxn' es)"

subsection \<open>Notions used by the properties\<close>

text \<open>
  The order of two timestamps: seconds first, then the sub-second part.
\<close>

definition tv_le :: "GTimeVal \<Rightarrow> GTimeVal \<Rightarrow> bool" where
  "tv_le a b \<longleftrightarrow>
     tv_sec a < tv_sec b \<or> (tv_sec a = tv_sec b \<and> tv_usec a \<le> tv_usec b)"

text \<open>The parsed \<^verbatim>\<open>CreatedOn\<close> of a record, when it has one that parses.\<close>

definition created_on :: "iso8601 \<Rightarrow> json \<Rightarrow> GTimeVal option" where
  "created_on from_iso nd =
     (case parse_string nd ''CreatedOn'' of
        Some str \<Rightarrow> from_iso str
      | None \<Rightarrow> None)"

definition parsable :: "iso8601 \<Rightarrow> json \<Rightarrow> bool" where
  "parsable from_iso nd = (created_on from_iso nd \<noteq> None)"

definition not_later :: "iso8601 \<Rightarrow> json \<Rightarrow> json \<Rightarrow> bool" where
  "not_later from_iso a b =
     (case created_on from_iso a of
        None \<Rightarrow> False
      | Some x \<Rightarrow>
          (case created_on from_iso b of
             None \<Rightarrow> False
           | Some y \<Rightarrow> tv_le x y))"

definition has_content :: "json \<Rightarrow> bool" where
  "has_content nd = (parse_string nd ''Content'' \<noteq> None)"

definition message_id :: "json \<Rightarrow> string option" where
  "message_id nd = parse_string nd ''MessageId''"

text \<open>
  The records that the drain walks, in the order in which it hands them to
  \<^verbatim>\<open>chat_deliver_msg\<close>.
\<close>

definition drained :: "iso8601 \<Rightarrow> GHashTable \<Rightarrow> json list" where
  "drained from_iso h = map node (queued_msgs from_iso (Some h))"

text \<open>A queued entry carries the parsed \<^verbatim>\<open>CreatedOn\<close> of its own record.\<close>

definition stamped :: "iso8601 \<Rightarrow> msg_sort \<Rightarrow> bool" where
  "stamped from_iso ms \<longleftrightarrow> created_on from_iso (node ms) = Some (tm ms)"

text \<open>
  The query of a page request as the fetcher builds it: the page size, then
  \<^verbatim>\<open>after\<close> when the account holds a non-empty watermark for the room, then
  \<^verbatim>\<open>next-token\<close> when a continuation token is given.
\<close>

definition page_query :: "chime_connection \<Rightarrow> chime_chat \<Rightarrow> string option \<Rightarrow> (string \<times> string) list" where
  "page_query cxn c tok =
     (''max-results'', ''50'') #
     (case account cxn (''last-room-'' @ room_id (rooms cxn (room c))) of
        Some a \<Rightarrow> if a = [] then [] else [(''after'', a)]
      | None \<Rightarrow> []) @
     (case tok of Some t \<Rightarrow> [(''next-token'', t)] | None \<Rightarrow> [])"

text \<open>
  Every chat in the store is the chat of its room. Two chats of one room would both
  have to be the one chat the room points to.
\<close>

definition one_session_per_room :: "chime_connection \<Rightarrow> bool" where
  "one_session_per_room cxn \<longleftrightarrow>
     (\<forall>p c. chats cxn p = Some c \<longrightarrow> chat (rooms cxn (room c)) = Some p)"

text \<open>The key strings of a table with their values.\<close>

definition pairs :: "GHashTable \<Rightarrow> (string \<times> json) list" where
  "pairs h = map (\<lambda>e. (e_key e, e_value e)) h"

text \<open>A table in which every node is stored under its own \<^verbatim>\<open>MessageId\<close>.\<close>

definition keyed :: "GHashTable \<Rightarrow> bool" where
  "keyed h = list_all (\<lambda>e. message_id (e_value e) = Some (e_key e)) h"

text \<open>
  A table with one entry per key string, each node under its own \<^verbatim>\<open>MessageId\<close>.
\<close>

definition well_keyed :: "GHashTable \<Rightarrow> bool" where
  "well_keyed h \<longleftrightarrow> keyed h \<and> distinct (map e_key h)"

text \<open>
  The table after the callbacks of successive history pages, each page given by its
  \<^verbatim>\<open>Messages\<close>: \<^verbatim>\<open>fetch_msgs_cb\<close> stores the records of a page with
  \<^verbatim>\<open>json_array_foreach_element\<close> and \<^verbatim>\<open>one_msg_cb\<close>, and the tree of a page is
  released before the next page arrives. The tree of the last page is still in hand:
  the drain runs in the callback of that page.
\<close>

fun store_pages :: "json list list \<Rightarrow> GHashTable option \<Rightarrow> fault + GHashTable option" where
  "store_pages [] t = Inr t"
| "store_pages (pg # pgs) t =
     (case json_array_foreach_element pg one_msg_cb t of
        Inl f \<Rightarrow> Inl f
      | Inr t' \<Rightarrow>
          if pgs = [] then Inr t'
          else store_pages pgs (map_option (map release_entry) t'))"

text \<open>
  The stored hashes of the keys that the records of some pages are inserted under,
  and the pages in which no such hash occurs more than twice.
\<close>

definition id_hashes :: "json list \<Rightarrow> 32 word list" where
  "id_hashes nds = map key_hash (List.map_filter message_id nds)"

definition no_third_insert :: "json list list \<Rightarrow> bool" where
  "no_third_insert pgs =
     list_all (\<lambda>w. count_list (id_hashes (concat pgs)) w \<le> 2) (id_hashes (concat pgs))"

text \<open>
  What the keys of a table owe to the inserts made so far, given the stored hashes
  of these inserts: a key has been inserted once, and a key that no longer points
  into the value of its entry has been inserted twice.
\<close>

definition key_inv :: "32 word list \<Rightarrow> GHashTable \<Rightarrow> bool" where
  "key_inv seen h =
     list_all (\<lambda>e. (if e_state e = KeyInValue then 1 else 2) \<le>
                      count_list seen (key_hash (e_key e))) h"

text \<open>What can be seen of the outcome of a callback or of a run.\<close>

definition deliveries :: "fault + chime_connection \<Rightarrow> delivery list" where
  "deliveries res = (case res of Inl f \<Rightarrow> [] | Inr cxn \<Rightarrow> delivered cxn)"

definition delivered_ids :: "fault + chime_connection \<Rightarrow> string option list" where
  "delivered_ids res = map message_id (map d_node (deliveries res))"

definition delivered_texts :: "fault + chime_connection \<Rightarrow> string list" where
  "delivered_texts res = map d_message (deliveries res)"

definition watermark :: "fault + chime_connection \<Rightarrow> string \<Rightarrow> string option" where
  "watermark res name = (case res of Inl f \<Rightarrow> None | Inr cxn \<Rightarrow> account cxn name)"

definition requests :: "fault + chime_connection \<Rightarrow> (string \<times> string) list list" where
  "requests res = (case res of Inl f \<Rightarrow> [] | Inr cxn \<Rightarrow> map query (map snd (soup_sess cxn)))"

definition subscribed :: "fault + chime_connection \<Rightarrow> (string \<times> gpointer) list" where
  "subscribed res = (case res of Inl f \<Rightarrow> [] | Inr cxn \<Rightarrow> subscriptions cxn)"

definition live_chat :: "fault + chime_connection \<Rightarrow> int \<Rightarrow> nat option" where
  "live_chat res i = (case res of Inl f \<Rightarrow> None | Inr cxn \<Rightarrow> live_chats cxn (GUINT_TO_POINTER i))"

definition chat_at :: "fault + chime_connection \<Rightarrow> nat \<Rightarrow> chime_chat option" where
  "chat_at res p = (case res of Inl f \<Rightarrow> None | Inr cxn \<Rightarrow> chats cxn p)"

definition room_chat :: "fault + chime_connection \<Rightarrow> nat \<Rightarrow> nat option" where
  "room_chat res r = (case res of Inl f \<Rightarrow> None | Inr cxn \<Rightarrow> chat (rooms cxn r))"

subsection \<open>A connection with one room, for the examples\<close>

definition iso_ex :: iso8601 where
  "iso_ex = map_of
     [(''1970-01-01T00:00:05Z'', \<lparr>tv_sec = 5, tv_usec = 0\<rparr>),
      (''1970-01-01T00:00:10Z'', \<lparr>tv_sec = 10, tv_usec = 0\<rparr>),
      (''1970-01-01T00:00:20Z'', \<lparr>tv_sec = 20, tv_usec = 0\<rparr>)]"

definition room_ex :: chime_room where
  "room_ex = \<lparr>room_id = ''R'', room_id_addr = 6291456, channel = ''chat_room!R'', chat = None\<rparr>"

definition cxn_ex :: chime_connection where
  "cxn_ex =
     \<lparr>rooms_by_id = [''R'' \<mapsto> 0], rooms = (\<lambda>r. room_ex), chats = Map.empty, brk = 1,
      live_chats = Map.empty, chat_id = 0, messaging_url = ''https://chime'',
      account = Map.empty, soup_sess = [], next_msg = 1, subscriptions = [], convs = [],
      delivered = []\<rparr>"

definition join_ex :: event where
  "join_ex = Join [(''RoomId'', ''R''), (''Name'', ''Room R'')]"

definition msg_ex :: "string \<Rightarrow> string \<Rightarrow> string \<Rightarrow> json" where
  "msg_ex i t body =
     JObject [(''MessageId'', JString i), (''CreatedOn'', JString t), (''Content'', JString body)]"

definition bare_ex :: "string \<Rightarrow> string \<Rightarrow> json" where
  "bare_ex i t = JObject [(''MessageId'', JString i), (''CreatedOn'', JString t)]"

definition page_ex :: "json list \<Rightarrow> json" where
  "page_ex ms = JObject [(''Messages'', JArray ms)]"

definition push_ex :: "json \<Rightarrow> json" where
  "push_ex r = JObject [(''klass'', JString ''RoomMessage''), (''record'', r)]"

text \<open>A chat of room 0 at address 1 that is still catching up, with a given table.\<close>

definition chat_ex :: "GHashTable option \<Rightarrow> chime_chat" where
  "chat_ex t =
     \<lparr>room = 0, conv = 1, msgs_msg = None, members_msg = None, got_members = False,
      got_msgs = False, messages = t, members = None\<rparr>"

definition cxn_with :: "GHashTable option \<Rightarrow> chime_connection" where
  "cxn_with t =
     cxn_ex\<lparr>chats := [1 \<mapsto> chat_ex t], brk := 2, chat_id := 1,
            rooms := (\<lambda>r. room_ex\<lparr>chat := Some 1\<rparr>),
            live_chats := [1 \<mapsto> 1],
            subscriptions := [(''chat_room!R'', ChatPtr 1)],
            convs := [(1, Some ''Room R'')]\<rparr>"

text \<open>
  Tables for the examples: two records out of time order and one whose timestamp
  does not parse; and a table whose latest record has no \<^verbatim>\<open>Content\<close>.
\<close>

definition entry_ex :: "string \<Rightarrow> json \<Rightarrow> entry" where
  "entry_ex k v = \<lparr>e_key = k, e_state = KeyInValue, e_fresh = True, e_value = v\<rparr>"

definition table_ex :: GHashTable where
  "table_ex =
     [entry_ex ''a'' (msg_ex ''a'' ''1970-01-01T00:00:10Z'' ''A''),
      entry_ex ''x'' (msg_ex ''x'' ''yesterday'' ''X''),
      entry_ex ''b'' (msg_ex ''b'' ''1970-01-01T00:00:05Z'' ''B'')]"

definition table_bare :: GHashTable where
  "table_bare =
     [entry_ex ''b'' (bare_ex ''b'' ''1970-01-01T00:00:10Z''),
      entry_ex ''a'' (msg_ex ''a'' ''1970-01-01T00:00:05Z'' ''A'')]"

text \<open>
  A table with a record whose timestamp does not parse, a record without
  \<^verbatim>\<open>Content\<close> and a record that has both.
\<close>

definition table_mixed :: GHashTable where
  "table_mixed =
     [entry_ex ''x'' (msg_ex ''x'' ''yesterday'' ''X''),
      entry_ex ''b'' (bare_ex ''b'' ''1970-01-01T00:00:10Z''),
      entry_ex ''a'' (msg_ex ''a'' ''1970-01-01T00:00:05Z'' ''A'')]"

text \<open>
  Two history pages that both carry message \<open>a\<close>, and the table they leave behind:
  the second record of \<open>a\<close> has taken the place of the first, and the key of the
  entry points into the first, which is freed.
\<close>

definition pages_ex :: "json list list" where
  "pages_ex =
     [[msg_ex ''a'' ''1970-01-01T00:00:10Z'' ''first'', msg_ex ''b'' ''1970-01-01T00:00:05Z'' ''B''],
      [msg_ex ''a'' ''1970-01-01T00:00:10Z'' ''second'']]"

definition table_paged :: GHashTable where
  "table_paged =
     [\<lparr>e_key = ''a'', e_state = KeyFreed, e_fresh = True,
       e_value = msg_ex ''a'' ''1970-01-01T00:00:10Z'' ''second''\<rparr>,
      \<lparr>e_key = ''b'', e_state = KeyInValue, e_fresh = False,
       e_value = msg_ex ''b'' ''1970-01-01T00:00:05Z'' ''B''\<rparr>]"

section \<open>Properties\<close>

subsection \<open>The sort\<close>

lemma compare_ms_pos: "compare_ms d x > 0 \<longleftrightarrow> \<not> tv_le (tm d) (tm x)"
  by (auto simp: compare_ms_def tv_le_def)

lemma tv_le_total: "\<not> tv_le a b \<Longrightarrow> tv_le b a"
  by (auto simp: tv_le_def)

lemma tv_le_trans: "tv_le a b \<Longrightarrow> tv_le b c \<Longrightarrow> tv_le a c"
  by (auto simp: tv_le_def)

lemma mset_insert_sorted: "mset (g_list_insert_sorted l d f) = add_mset d (mset l)"
  by (induction l) auto

lemma set_insert_sorted: "set (g_list_insert_sorted l d f) = insert d (set l)"
  by (induction l) auto

lemma sorted_insert_sorted:
  "sorted_wrt (\<lambda>a b. tv_le (tm a) (tm b)) l \<Longrightarrow>
   sorted_wrt (\<lambda>a b. tv_le (tm a) (tm b)) (g_list_insert_sorted l d compare_ms)"
proof (induction l)
  case Nil
  then show ?case by simp
next
  case (Cons x xs)
  show ?case
  proof (cases "compare_ms d x > 0")
    case True
    then have "tv_le (tm x) (tm d)"
      by (simp add: compare_ms_pos tv_le_total)
    with Cons True show ?thesis
      by (auto simp: set_insert_sorted)
  next
    case False
    then have dx: "tv_le (tm d) (tm x)"
      by (simp add: compare_ms_pos)
    have "\<forall>y\<in>set xs. tv_le (tm d) (tm y)"
      using Cons.prems dx by (auto intro: tv_le_trans)
    with Cons.prems dx False show ?thesis by simp
  qed
qed

lemma foreach_remove_queue:
  "g_hash_table_foreach_remove h (insert_queued_msg from_iso) l = (h', l') \<Longrightarrow>
     h' = [] \<and>
     (sorted_wrt (\<lambda>a b. tv_le (tm a) (tm b)) l \<longrightarrow> sorted_wrt (\<lambda>a b. tv_le (tm a) (tm b)) l') \<and>
     (list_all (stamped from_iso) l \<longrightarrow> list_all (stamped from_iso) l') \<and>
     mset (map node l') = mset (map node l) + mset (filter (parsable from_iso) (map e_value h))"
proof (induction h arbitrary: l h' l')
  case Nil
  then show ?case by simp
next
  case (Cons e h)
  let ?k = "e_key e" and ?v = "e_value e"
  have "fst (insert_queued_msg from_iso ?k ?v l)"
    by (simp add: insert_queued_msg_def split: option.splits)
  then obtain l1 where l1: "insert_queued_msg from_iso ?k ?v l = (True, l1)"
    by (cases "insert_queued_msg from_iso ?k ?v l") auto
  obtain h2 l2 where r: "g_hash_table_foreach_remove h (insert_queued_msg from_iso) l1 = (h2, l2)"
    by (cases "g_hash_table_foreach_remove h (insert_queued_msg from_iso) l1")
  from Cons.prems l1 r have eq: "h' = h2" "l' = l2" by auto
  note ih = Cons.IH [OF r]
  have s1: "sorted_wrt (\<lambda>a b. tv_le (tm a) (tm b)) l \<Longrightarrow> sorted_wrt (\<lambda>a b. tv_le (tm a) (tm b)) l1"
    using l1 by (auto simp: insert_queued_msg_def sorted_insert_sorted split: option.splits)
  have s2: "list_all (stamped from_iso) l \<Longrightarrow> list_all (stamped from_iso) l1"
    using l1 by (auto simp: insert_queued_msg_def list_all_iff set_insert_sorted stamped_def created_on_def split: option.splits)
  have s3: "mset (map node l1) = mset (map node l) + mset (filter (parsable from_iso) [?v])"
    using l1 by (auto simp: insert_queued_msg_def mset_insert_sorted parsable_def created_on_def split: option.splits)
  show ?case using ih s1 s2 s3 eq by auto
qed

subsection \<open>The drain\<close>

lemma queued_msgs_facts:
  "sorted_wrt (\<lambda>a b. tv_le (tm a) (tm b)) (queued_msgs from_iso (Some h))"
  "list_all (stamped from_iso) (queued_msgs from_iso (Some h))"
  "mset (map node (queued_msgs from_iso (Some h))) = mset (filter (parsable from_iso) (map e_value h))"
  using foreach_remove_queue [of h from_iso "[]"]
  by (cases "g_hash_table_foreach_remove h (insert_queued_msg from_iso) []"; simp add: queued_msgs_def)+

lemma drained_sorted: "sorted_wrt (not_later from_iso) (drained from_iso h)"
proof -
  let ?l = "queued_msgs from_iso (Some h)"
  have "sorted_wrt (\<lambda>a b. not_later from_iso (node a) (node b)) ?l"
  proof (rule sorted_wrt_mono_rel [OF _ queued_msgs_facts(1)])
    fix a b
    assume "a \<in> set ?l" "b \<in> set ?l" "tv_le (tm a) (tm b)"
    moreover have "list_all (stamped from_iso) ?l" by (rule queued_msgs_facts)
    ultimately show "not_later from_iso (node a) (node b)"
      by (auto simp: list_all_iff stamped_def not_later_def)
  qed
  then show ?thesis by (simp add: drained_def sorted_wrt_map)
qed

lemma drained_mset: "mset (drained from_iso h) = mset (filter (parsable from_iso) (map e_value h))"
  by (simp only: drained_def queued_msgs_facts(3))

lemma chat_deliver_msg_nodes:
  "map d_node (delivered (chat_deliver_msg from_iso now cxn c nd t)) =
     map d_node (delivered cxn) @ filter has_content [nd]"
  by (simp add: chat_deliver_msg_def serv_got_chat_in_def has_content_def Let_def split: option.splits)

lemma chat_deliver_msg_no_content:
  "\<not> has_content nd \<Longrightarrow> chat_deliver_msg from_iso now cxn c nd t = cxn"
  by (simp add: chat_deliver_msg_def has_content_def Let_def)

lemma chat_deliver_msg_other [simp]:
  "rooms_by_id (chat_deliver_msg from_iso now cxn c nd t) = rooms_by_id cxn"
  "rooms (chat_deliver_msg from_iso now cxn c nd t) = rooms cxn"
  "chats (chat_deliver_msg from_iso now cxn c nd t) = chats cxn"
  "brk (chat_deliver_msg from_iso now cxn c nd t) = brk cxn"
  "live_chats (chat_deliver_msg from_iso now cxn c nd t) = live_chats cxn"
  "chat_id (chat_deliver_msg from_iso now cxn c nd t) = chat_id cxn"
  "messaging_url (chat_deliver_msg from_iso now cxn c nd t) = messaging_url cxn"
  "account (chat_deliver_msg from_iso now cxn c nd t) = account cxn"
  "soup_sess (chat_deliver_msg from_iso now cxn c nd t) = soup_sess cxn"
  "next_msg (chat_deliver_msg from_iso now cxn c nd t) = next_msg cxn"
  "subscriptions (chat_deliver_msg from_iso now cxn c nd t) = subscriptions cxn"
  "convs (chat_deliver_msg from_iso now cxn c nd t) = convs cxn"
  "chime_connection.more (chat_deliver_msg from_iso now cxn c nd t) = chime_connection.more cxn"
  by (simp_all add: chat_deliver_msg_def serv_got_chat_in_def Let_def split: option.splits)

lemma set_string_fields [simp]:
  "rooms_by_id (purple_account_set_string cxn k v) = rooms_by_id cxn"
  "rooms (purple_account_set_string cxn k v) = rooms cxn"
  "chats (purple_account_set_string cxn k v) = chats cxn"
  "brk (purple_account_set_string cxn k v) = brk cxn"
  "live_chats (purple_account_set_string cxn k v) = live_chats cxn"
  "chat_id (purple_account_set_string cxn k v) = chat_id cxn"
  "messaging_url (purple_account_set_string cxn k v) = messaging_url cxn"
  "account (purple_account_set_string cxn k v) = (account cxn)(k \<mapsto> v)"
  "soup_sess (purple_account_set_string cxn k v) = soup_sess cxn"
  "next_msg (purple_account_set_string cxn k v) = next_msg cxn"
  "subscriptions (purple_account_set_string cxn k v) = subscriptions cxn"
  "convs (purple_account_set_string cxn k v) = convs cxn"
  "delivered (purple_account_set_string cxn k v) = delivered cxn"
  "chime_connection.more (purple_account_set_string cxn k v) = chime_connection.more cxn"
  by (simp_all add: purple_account_set_string_def)

lemma deliver_queued_nodes:
  "map d_node (delivered (deliver_queued from_iso now cxn c l)) =
     map d_node (delivered cxn) @ filter has_content (map node l)"
proof (induction l arbitrary: cxn)
  case Nil
  then show ?case by simp
next
  case (Cons ms l)
  show ?case
    by (simp add: Cons.IH Let_def chat_deliver_msg_nodes split: option.splits)
qed

lemma deliver_queued_other [simp]:
  "rooms_by_id (deliver_queued from_iso now cxn c l) = rooms_by_id cxn"
  "rooms (deliver_queued from_iso now cxn c l) = rooms cxn"
  "chats (deliver_queued from_iso now cxn c l) = chats cxn"
  "brk (deliver_queued from_iso now cxn c l) = brk cxn"
  "live_chats (deliver_queued from_iso now cxn c l) = live_chats cxn"
  "chat_id (deliver_queued from_iso now cxn c l) = chat_id cxn"
  "messaging_url (deliver_queued from_iso now cxn c l) = messaging_url cxn"
  "soup_sess (deliver_queued from_iso now cxn c l) = soup_sess cxn"
  "next_msg (deliver_queued from_iso now cxn c l) = next_msg cxn"
  "subscriptions (deliver_queued from_iso now cxn c l) = subscriptions cxn"
  "convs (deliver_queued from_iso now cxn c l) = convs cxn"
  "chime_connection.more (deliver_queued from_iso now cxn c l) = chime_connection.more cxn"
  by (induction l arbitrary: cxn; simp add: Let_def split: option.splits)+

lemma deliver_queued_account:
  "account (deliver_queued from_iso now cxn c l) =
     (if l = [] then account cxn
      else (case parse_string (node (last l)) ''CreatedOn'' of
              Some t \<Rightarrow> (account cxn)(''last-room-'' @ room_id (rooms cxn (room c)) \<mapsto> t)
            | None \<Rightarrow> account cxn))"
proof (induction l arbitrary: cxn)
  case Nil
  then show ?case by simp
next
  case (Cons ms l)
  show ?case
    by (cases "l = []") (simp_all add: Cons.IH Let_def fun_upd_def split: option.splits)
qed

lemma stamped_created_on:
  "ms \<in> set (queued_msgs from_iso (Some h)) \<Longrightarrow> parse_string (node ms) ''CreatedOn'' \<noteq> None"
  using queued_msgs_facts(2) [of from_iso h]
  by (auto simp: list_all_iff stamped_def created_on_def split: option.splits)

lemma complete_chat_setup_eq:
  "chats cxn p = Some c \<Longrightarrow>
   chime_complete_chat_setup from_iso now cxn p =
     Inr (deliver_queued from_iso now
            (cxn\<lparr>chats := (chats cxn)(p \<mapsto> c\<lparr>messages := None\<rparr>)\<rparr>)
            (c\<lparr>messages := None\<rparr>) (queued_msgs from_iso (messages c)))"
  by (simp add: chime_complete_chat_setup_def Let_def)

subsection \<open>Facts shared by the claims\<close>

lemma drained_last_created_on:
  assumes "drained from_iso h \<noteq> []"
  shows "\<exists>t. parse_string (last (drained from_iso h)) ''CreatedOn'' = Some t"
proof -
  let ?l = "queued_msgs from_iso (Some h)"
  from assms have ne: "?l \<noteq> []" by (simp add: drained_def)
  then have "last ?l \<in> set ?l" by simp
  then have "parse_string (node (last ?l)) ''CreatedOn'' \<noteq> None"
    by (rule stamped_created_on)
  with ne show ?thesis by (auto simp: drained_def last_map)
qed

lemma watermark_lemma:
  assumes "chats cxn p = Some c" and "messages c = Some h"
  shows "\<exists>cxn'. chime_complete_chat_setup from_iso now cxn p = Inr cxn' \<and>
           (if drained from_iso h = [] then account cxn' = account cxn
            else \<exists>t. parse_string (last (drained from_iso h)) ''CreatedOn'' = Some t \<and>
                   account cxn' =
                     (account cxn)(''last-room-'' @ room_id (rooms cxn (room c)) \<mapsto> t))"
proof -
  let ?cxn1 = "cxn\<lparr>chats := (chats cxn)(p \<mapsto> c\<lparr>messages := None\<rparr>)\<rparr>"
  let ?l = "queued_msgs from_iso (Some h)"
  let ?cxn' = "deliver_queued from_iso now ?cxn1 (c\<lparr>messages := None\<rparr>) ?l"
  have run: "chime_complete_chat_setup from_iso now cxn p = Inr ?cxn'"
    using assms by (simp add: complete_chat_setup_eq)
  show ?thesis
  proof (cases "drained from_iso h = []")
    case True
    then have "?l = []" by (simp add: drained_def)
    then have "account ?cxn' = account cxn" by (simp add: deliver_queued_account)
    with run True show ?thesis by simp
  next
    case False
    then have ne: "?l \<noteq> []" by (simp add: drained_def)
    from drained_last_created_on [OF False]
    obtain t where t: "parse_string (last (drained from_iso h)) ''CreatedOn'' = Some t" ..
    with ne have "parse_string (node (last ?l)) ''CreatedOn'' = Some t"
      by (simp add: drained_def last_map)
    with ne have "account ?cxn' =
        (account cxn)(''last-room-'' @ room_id (rooms cxn (room c)) \<mapsto> t)"
      by (simp add: deliver_queued_account)
    with run False t show ?thesis by simp
  qed
qed

lemma drain_sorted_lemma:
  assumes "chats cxn p = Some c" and "messages c = Some h"
  shows "\<exists>cxn'. chime_complete_chat_setup from_iso now cxn p = Inr cxn' \<and>
           map d_node (delivered cxn') =
             map d_node (delivered cxn) @ filter has_content (drained from_iso h)"
  using assms by (simp add: complete_chat_setup_eq deliver_queued_nodes drained_def)

lemma chat_msg_cb_live:
  assumes "chats cxn p = Some c" and "messages c = None"
    and "json_object_get_member ev ''record'' = Some r"
  shows "chat_msg_cb from_iso now cxn (ChatPtr p) ev =
           Inr (chat_deliver_msg from_iso now cxn c r (to_int now))"
  using assms by (simp add: chat_msg_cb_def)

lemma drop_new_deliveries:
  assumes "map d_node ds' = map d_node ds @ xs"
  shows "drop (length ds) (map d_node ds') = xs"
proof -
  have "drop (length (map d_node ds)) (map d_node ds @ xs) = xs" by simp
  with assms show ?thesis by simp
qed

lemma foreach_remove_snd_Cons:
  "snd (g_hash_table_foreach_remove (e # h) func l) =
     snd (g_hash_table_foreach_remove h func (snd (func (e_key e) (e_value e) l)))"
  by (simp split: prod.splits)

lemma foreach_remove_unparsable:
  "snd (g_hash_table_foreach_remove (filter (\<lambda>e. parsable from_iso (e_value e)) h)
          (insert_queued_msg from_iso) l) =
   snd (g_hash_table_foreach_remove h (insert_queued_msg from_iso) l)"
proof (induction h arbitrary: l)
  case Nil
  then show ?case by simp
next
  case (Cons e h)
  show ?case
  proof (cases "parsable from_iso (e_value e)")
    case True
    then show ?thesis
      by (simp only: filter.simps if_True foreach_remove_snd_Cons Cons.IH)
  next
    case False
    then have "insert_queued_msg from_iso (e_key e) (e_value e) l = (True, l)"
      by (simp add: insert_queued_msg_def parsable_def created_on_def split: option.splits)
    with False show ?thesis
      by (simp only: filter.simps snd_conv if_False foreach_remove_snd_Cons Cons.IH)
  qed
qed

lemma one_msg_cb_no_id: "message_id nd = None \<Longrightarrow> one_msg_cb nd t = Inr t"
  by (simp add: one_msg_cb_def message_id_def)

lemma chat_msg_cb_no_id:
  assumes "chats cxn p = Some c" and "messages c = Some h"
    and "json_object_get_member ev ''record'' = Some r" and "message_id r = None"
  shows "chat_msg_cb from_iso now cxn (ChatPtr p) ev = Inr cxn"
  using assms by (simp add: chat_msg_cb_def message_id_def)

lemma find_append: "find P (xs @ ys) = (case find P xs of Some x \<Rightarrow> Some x | None \<Rightarrow> find P ys)"
  by (induction xs) auto

lemma insert_node_pairs:
  "map_of (pairs (g_hash_table_insert_node h k v)) = (map_of (pairs h))(k \<mapsto> v) \<and>
   map e_key (g_hash_table_insert_node h k v) =
     (if k \<in> set (map e_key h) then map e_key h else map e_key h @ [k]) \<and>
   set (pairs (g_hash_table_insert_node h k v)) \<subseteq> insert (k, v) (set (pairs h))"
  by (induction h) (auto simp: pairs_def fun_eq_iff)

lemma insert_pairs:
  assumes "g_hash_table_insert h k v = Inr h'"
  shows "map_of (pairs h') = (map_of (pairs h))(k \<mapsto> v) \<and>
     map e_key h' = (if k \<in> set (map e_key h) then map e_key h else map e_key h @ [k]) \<and>
     set (pairs h') \<subseteq> insert (k, v) (set (pairs h))"
proof -
  from assms have "h' = g_hash_table_insert_node h k v"
    by (auto simp: g_hash_table_insert_def split: option.splits)
  then show ?thesis by (simp only: insert_node_pairs)
qed

lemma pairs_release [simp]:
  "pairs (map release_entry h) = pairs h"
  "map e_key (map release_entry h) = map e_key h"
  "map e_value (map release_entry h) = map e_value h"
  by (simp_all add: pairs_def release_entry_def)

lemma keyed_release [simp]: "keyed (map release_entry h) = keyed h"
  by (simp add: keyed_def list_all_iff release_entry_def)

lemma well_keyed_release [simp]: "well_keyed (map release_entry h) = well_keyed h"
  by (simp add: well_keyed_def comp_def release_entry_def)

lemma keyed_pairs: "keyed h \<longleftrightarrow> (\<forall>(k, v)\<in>set (pairs h). message_id v = Some k)"
  by (auto simp: keyed_def list_all_iff pairs_def)

lemma one_msg_cb_stores:
  assumes "one_msg_cb nd (Some h) = Inr t"
  shows "\<exists>h'. t = Some h' \<and>
           map_of (pairs h') i = (if message_id nd = Some i then Some nd else map_of (pairs h) i) \<and>
           (well_keyed h \<longrightarrow> well_keyed h')"
proof (cases "message_id nd")
  case None
  with assms show ?thesis by (auto simp: one_msg_cb_no_id)
next
  case (Some k)
  with assms obtain h' where ins: "g_hash_table_insert h k nd = Inr h'" and t: "t = Some h'"
    by (auto simp: one_msg_cb_def message_id_def split: sum.splits)
  note f = insert_pairs [OF ins]
  have "well_keyed h'" if "well_keyed h"
    using that f Some by (auto simp: well_keyed_def keyed_pairs)
  with f t Some show ?thesis by auto
qed

lemma foreach_one_msg_cb_stores:
  assumes "json_array_foreach_element nds one_msg_cb (Some h) = Inr t"
  shows "\<exists>h'. t = Some h' \<and>
           map_of (pairs h') i =
             (case find (\<lambda>nd. message_id nd = Some i) (rev nds) of
                Some nd \<Rightarrow> Some nd
              | None \<Rightarrow> map_of (pairs h) i) \<and>
           (well_keyed h \<longrightarrow> well_keyed h')"
  using assms
proof (induction nds arbitrary: h)
  case Nil
  then show ?case by auto
next
  case (Cons nd nds)
  from Cons.prems obtain t1 where t1: "one_msg_cb nd (Some h) = Inr t1"
    and rest: "json_array_foreach_element nds one_msg_cb t1 = Inr t"
    by (auto split: sum.splits)
  from one_msg_cb_stores [OF t1, of i] obtain h1 where h1: "t1 = Some h1"
    "map_of (pairs h1) i = (if message_id nd = Some i then Some nd else map_of (pairs h) i)"
    "well_keyed h \<longrightarrow> well_keyed h1"
    by blast
  from Cons.IH [OF rest [unfolded h1(1)]] h1(2,3) show ?case
    by (auto simp: find_append split: option.splits)
qed

lemma store_pages_stores:
  assumes "store_pages pgs (Some h) = Inr t"
  shows "\<exists>h'. t = Some h' \<and>
           map_of (pairs h') i =
             (case find (\<lambda>nd. message_id nd = Some i) (rev (concat pgs)) of
                Some nd \<Rightarrow> Some nd
              | None \<Rightarrow> map_of (pairs h) i) \<and>
           (well_keyed h \<longrightarrow> well_keyed h')"
  using assms
proof (induction pgs arbitrary: h)
  case Nil
  then show ?case by auto
next
  case (Cons pg pgs)
  from Cons.prems obtain t1 where t1: "json_array_foreach_element pg one_msg_cb (Some h) = Inr t1"
    by (auto split: sum.splits)
  from foreach_one_msg_cb_stores [OF t1, of i] obtain h1 where h1: "t1 = Some h1"
    "map_of (pairs h1) i =
       (case find (\<lambda>nd. message_id nd = Some i) (rev pg) of
          Some nd \<Rightarrow> Some nd
        | None \<Rightarrow> map_of (pairs h) i)"
    "well_keyed h \<longrightarrow> well_keyed h1"
    by blast
  show ?case
  proof (cases "pgs = []")
    case True
    with Cons.prems t1 have "t = t1" by simp
    with True h1 show ?thesis by auto
  next
    case False
    with Cons.prems t1 h1(1) have "store_pages pgs (Some (map release_entry h1)) = Inr t"
      by simp
    from Cons.IH [OF this] h1(2,3) show ?thesis
      by (auto simp: find_append split: option.splits)
  qed
qed

lemma keyed_ids:
  assumes "keyed h"
  shows "map message_id (map e_value h) = map Some (map e_key h)"
  using assms by (induction h) (auto simp: keyed_def)

lemma drained_ids_distinct:
  assumes "well_keyed h"
  shows "distinct (map message_id (filter has_content (drained from_iso h)))"
proof -
  from assms have k: "keyed h" and d: "distinct (map e_key h)"
    by (simp_all add: well_keyed_def)
  have "distinct (map Some (map e_key h))"
    using d by (subst distinct_map) (simp add: inj_on_def)
  then have "distinct (map message_id (map e_value h))"
    by (simp only: keyed_ids [OF k])
  then have "distinct (map message_id (filter (parsable from_iso) (map e_value h)))"
    by (rule distinct_map_filter)
  moreover have "mset (map message_id (drained from_iso h)) =
      mset (map message_id (filter (parsable from_iso) (map e_value h)))"
    using drained_mset [of from_iso h] by (metis mset_map)
  ultimately have "distinct (map message_id (drained from_iso h))"
    by (metis mset_eq_imp_distinct_iff)
  then show ?thesis by (rule distinct_map_filter)
qed

lemma fetch_chat_messages_eq:
  assumes "chats cxn p = Some c"
  shows "fetch_chat_messages cxn p tok =
     Inr (cxn\<lparr>soup_sess := soup_sess cxn @
                [(next_msg cxn,
                  \<lparr>uri = messaging_url cxn @ ''/rooms/'' @ room_id (rooms cxn (room c)) @ ''/messages'',
                   query = page_query cxn c tok, cb_data = p\<rparr>)],
              next_msg := Suc (next_msg cxn),
              chats := (chats cxn)(p \<mapsto> c\<lparr>msgs_msg := Some (next_msg cxn)\<rparr>)\<rparr>)"
  using assms
  by (auto simp: fetch_chat_messages_def page_query_def chime_queue_http_request_def
      purple_account_get_string_def Let_def eval_nat_numeral split: option.splits)

lemma chat_deliver_msg_appends:
  "\<exists>ds. delivered (chat_deliver_msg from_iso now cxn c nd t) = delivered cxn @ ds"
  by (simp add: chat_deliver_msg_def serv_got_chat_in_def Let_def split: option.splits)

lemma deliver_queued_appends:
  "\<exists>ds. delivered (deliver_queued from_iso now cxn c l) = delivered cxn @ ds"
proof (induction l arbitrary: cxn)
  case Nil
  then show ?case by simp
next
  case (Cons ms l)
  let ?cxn1 = "chat_deliver_msg from_iso now cxn c (node ms) (to_int (tv_sec (tm ms)))"
  obtain ds1 where d1: "delivered ?cxn1 = delivered cxn @ ds1"
    using chat_deliver_msg_appends by blast
  show ?case
  proof (cases "l = [] \<and> parse_string (node ms) ''CreatedOn'' \<noteq> None")
    case True
    then obtain t where t: "parse_string (node ms) ''CreatedOn'' = Some t" by auto
    from True t d1 show ?thesis by (simp add: Let_def)
  next
    case False
    then have "deliver_queued from_iso now cxn c (ms # l) = deliver_queued from_iso now ?cxn1 c l"
      by (auto simp: Let_def split: option.splits)
    moreover obtain ds2 where "delivered (deliver_queued from_iso now ?cxn1 c l) = delivered ?cxn1 @ ds2"
      using Cons.IH by blast
    ultimately show ?thesis using d1 by simp
  qed
qed

lemma count_list_distinct:
  "distinct xs \<Longrightarrow> x \<in> set xs \<Longrightarrow> count_list xs x = 1"
  by (induction xs) (auto simp: count_list_0_iff)

lemma id_hashes_Cons:
  "id_hashes (nd # nds) =
     (case message_id nd of None \<Rightarrow> id_hashes nds | Some i \<Rightarrow> key_hash i # id_hashes nds)"
  by (simp add: id_hashes_def List.map_filter_simps split: option.splits)

lemma id_hashes_append [simp]: "id_hashes (xs @ ys) = id_hashes xs @ id_hashes ys"
  by (simp add: id_hashes_def List.map_filter_def)

lemma key_inv_release: "key_inv seen h \<Longrightarrow> key_inv seen (map release_entry h)"
  by (auto simp: key_inv_def list_all_iff release_entry_def)

lemma key_inv_lookup:
  assumes "key_inv seen h" and "count_list seen (key_hash k) \<le> 1"
  shows "g_hash_table_lookup_node h k = None"
  using assms
  by (fastforce simp: key_inv_def list_all_iff list_ex_iff g_hash_table_lookup_node_def
      split: if_splits)

lemma key_inv_Cons:
  "key_inv seen (e # h) \<longleftrightarrow>
     (if e_state e = KeyInValue then 1 else 2) \<le> count_list seen (key_hash (e_key e)) \<and>
     key_inv seen h"
  by (simp add: key_inv_def)

lemma key_inv_mono: "key_inv seen h \<Longrightarrow> key_inv (seen @ ws) h"
  by (fastforce simp: key_inv_def list_all_iff split: if_splits)

lemma key_inv_insert_node:
  assumes "key_inv seen h"
  shows "key_inv (seen @ [key_hash k]) (g_hash_table_insert_node h k v)"
  using assms
proof (induction h)
  case Nil
  then show ?case by (simp add: key_inv_def)
next
  case (Cons e h)
  from Cons.prems have e: "(if e_state e = KeyInValue then 1 else 2) \<le> count_list seen (key_hash (e_key e))"
    and h: "key_inv seen h"
    by (simp_all add: key_inv_Cons)
  show ?case
  proof (cases "e_key e = k")
    case True
    from e have "1 \<le> count_list seen (key_hash (e_key e))"
      by (simp split: if_splits)
    with e True key_inv_mono [OF h, of "[key_hash k]"] show ?thesis
      by (simp add: key_inv_Cons split: if_splits)
  next
    case False
    from e have "(if e_state e = KeyInValue then 1 else 2) \<le>
        count_list (seen @ [key_hash k]) (key_hash (e_key e))"
      by (simp split: if_splits)
    with False Cons.IH [OF h] show ?thesis
      by (simp only: g_hash_table_insert_node.simps if_False key_inv_Cons simp_thms)
  qed
qed

lemma key_inv_one_msg_cb:
  assumes "key_inv seen h" and "\<forall>w. count_list (seen @ id_hashes [nd]) w \<le> 2"
  shows "\<exists>h'. one_msg_cb nd (Some h) = Inr (Some h') \<and> key_inv (seen @ id_hashes [nd]) h'"
proof (cases "message_id nd")
  case None
  with assms(1) show ?thesis by (simp add: one_msg_cb_no_id id_hashes_Cons id_hashes_def)
next
  case (Some k)
  then have ih: "id_hashes [nd] = [key_hash k]"
    by (simp add: id_hashes_Cons id_hashes_def)
  from assms(2) have "count_list (seen @ [key_hash k]) (key_hash k) \<le> 2"
    unfolding ih by blast
  then have "count_list seen (key_hash k) \<le> 1" by simp
  with assms(1) have "g_hash_table_lookup_node h k = None" by (rule key_inv_lookup)
  with Some have "one_msg_cb nd (Some h) = Inr (Some (g_hash_table_insert_node h k nd))"
    by (simp add: one_msg_cb_def message_id_def g_hash_table_insert_def)
  with key_inv_insert_node [OF assms(1), of k nd] ih show ?thesis by simp
qed

lemma key_inv_foreach:
  assumes "key_inv seen h" and "\<forall>w. count_list (seen @ id_hashes nds) w \<le> 2"
  shows "\<exists>h'. json_array_foreach_element nds one_msg_cb (Some h) = Inr (Some h') \<and>
           key_inv (seen @ id_hashes nds) h'"
  using assms
proof (induction nds arbitrary: seen h)
  case Nil
  then show ?case by (simp add: id_hashes_def)
next
  case (Cons nd nds)
  have split: "id_hashes (nd # nds) = id_hashes [nd] @ id_hashes nds"
    using id_hashes_append [of "[nd]" nds] by simp
  have "\<forall>w. count_list (seen @ id_hashes [nd]) w \<le> 2"
  proof
    fix w
    from Cons.prems(2) have "count_list (seen @ id_hashes (nd # nds)) w \<le> 2" by blast
    then show "count_list (seen @ id_hashes [nd]) w \<le> 2"
      unfolding split by simp
  qed
  from key_inv_one_msg_cb [OF Cons.prems(1) this]
  obtain h1 where h1: "one_msg_cb nd (Some h) = Inr (Some h1)"
    "key_inv (seen @ id_hashes [nd]) h1"
    by blast
  from Cons.prems(2) have "\<forall>w. count_list ((seen @ id_hashes [nd]) @ id_hashes nds) w \<le> 2"
    unfolding split by simp
  from Cons.IH [OF h1(2) this] h1(1) show ?case
    unfolding split by simp
qed

lemma key_inv_store_pages:
  assumes "key_inv seen h" and "\<forall>w. count_list (seen @ id_hashes (concat pgs)) w \<le> 2"
  shows "\<exists>h'. store_pages pgs (Some h) = Inr (Some h')"
  using assms
proof (induction pgs arbitrary: seen h)
  case Nil
  then show ?case by simp
next
  case (Cons pg pgs)
  have "\<forall>w. count_list (seen @ id_hashes pg) w \<le> 2"
  proof
    fix w
    from Cons.prems(2) have "count_list (seen @ id_hashes (concat (pg # pgs))) w \<le> 2" by blast
    then show "count_list (seen @ id_hashes pg) w \<le> 2" by simp
  qed
  from key_inv_foreach [OF Cons.prems(1) this]
  obtain h1 where h1: "json_array_foreach_element pg one_msg_cb (Some h) = Inr (Some h1)"
    "key_inv (seen @ id_hashes pg) h1"
    by blast
  from Cons.prems(2) have c: "\<forall>w. count_list ((seen @ id_hashes pg) @ id_hashes (concat pgs)) w \<le> 2"
    by simp
  from Cons.IH [OF key_inv_release [OF h1(2)] c] h1(1) show ?case
    by simp
qed

lemma no_third_insert_stores:
  assumes "no_third_insert pgs"
  shows "\<exists>h. store_pages pgs (Some []) = Inr (Some h)"
proof -
  have "\<forall>w. count_list ([] @ id_hashes (concat pgs)) w \<le> 2"
  proof
    fix w
    show "count_list ([] @ id_hashes (concat pgs)) w \<le> 2"
    proof (cases "w \<in> set (id_hashes (concat pgs))")
      case True
      with assms show ?thesis by (simp add: no_third_insert_def list_all_iff)
    next
      case False
      then show ?thesis by (simp add: count_list_0_iff)
    qed
  qed
  moreover have "key_inv [] []" by (simp add: key_inv_def)
  ultimately show ?thesis by (rule key_inv_store_pages [rotated])
qed

lemma drained_set:
  "set (drained from_iso h) = set (filter (parsable from_iso) (map e_value h))"
  using drained_mset [of from_iso h] by (metis set_mset_mset)

lemma stored_pages_table:
  assumes "store_pages pgs (Some []) = Inr (Some h)"
  shows "well_keyed h" and
    "map_of (pairs h) i = find (\<lambda>nd. message_id nd = Some i) (rev (concat pgs))"
proof -
  have wk: "well_keyed []" by (simp add: well_keyed_def keyed_def)
  from store_pages_stores [OF assms, of i] wk
  show "well_keyed h" by auto
  from store_pages_stores [OF assms, of i]
  show "map_of (pairs h) i = find (\<lambda>nd. message_id nd = Some i) (rev (concat pgs))"
    by (auto simp: pairs_def split: option.splits)
qed

lemma well_keyed_value:
  assumes "well_keyed h" and "nd \<in> set (map e_value h)"
  shows "\<exists>k. message_id nd = Some k \<and> map_of (pairs h) k = Some nd"
proof -
  from assms(2) obtain e where e: "e \<in> set h" "e_value e = nd" by auto
  from assms(1) e have k: "message_id nd = Some (e_key e)"
    by (auto simp: well_keyed_def keyed_def list_all_iff)
  from assms(1) have "distinct (map fst (pairs h))"
    by (simp add: well_keyed_def pairs_def comp_def)
  moreover from e have "(e_key e, nd) \<in> set (pairs h)"
    by (force simp: pairs_def)
  ultimately have "map_of (pairs h) (e_key e) = Some nd" by simp
  with k show ?thesis by blast
qed

lemma stored_pages_drain:
  assumes "chats cxn p = Some c" and "messages c = Some h"
  shows "\<exists>cxn' ds. chime_complete_chat_setup from_iso now cxn p = Inr cxn' \<and>
           delivered cxn' = delivered cxn @ ds \<and>
           map d_node ds = filter has_content (drained from_iso h)"
proof -
  let ?cxn1 = "cxn\<lparr>chats := (chats cxn)(p \<mapsto> c\<lparr>messages := None\<rparr>)\<rparr>"
  let ?cxn' = "deliver_queued from_iso now ?cxn1 (c\<lparr>messages := None\<rparr>)
                 (queued_msgs from_iso (Some h))"
  have run: "chime_complete_chat_setup from_iso now cxn p = Inr ?cxn'"
    using assms by (simp add: complete_chat_setup_eq)
  obtain ds where ds: "delivered ?cxn' = delivered cxn @ ds"
    using deliver_queued_appends [of from_iso now ?cxn1] by auto
  have "map d_node (delivered ?cxn') =
      map d_node (delivered cxn) @ filter has_content (drained from_iso h)"
    by (simp add: deliver_queued_nodes drained_def)
  with ds have "map d_node ds = filter has_content (drained from_iso h)" by simp
  with run ds show ?thesis by blast
qed

subsection \<open>One chat per room\<close>

lemma one_session_unique:
  assumes "one_session_per_room cxn" and "chats cxn p = Some c" and "chats cxn q = Some c'"
    and "room c = room c'"
  shows "p = q"
proof -
  from assms(1,2) have "chat (rooms cxn (room c)) = Some p"
    by (simp add: one_session_per_room_def)
  moreover from assms(1,3) have "chat (rooms cxn (room c')) = Some q"
    by (simp add: one_session_per_room_def)
  ultimately show ?thesis using assms(4) by simp
qed

lemma inv_same_chats_rooms:
  "one_session_per_room cxn \<Longrightarrow> chats cxn' = chats cxn \<Longrightarrow> rooms cxn' = rooms cxn \<Longrightarrow>
   one_session_per_room cxn'"
  by (simp add: one_session_per_room_def)

lemma inv_upd_chat:
  assumes "one_session_per_room cxn" and "chats cxn p = Some c" and "room c' = room c"
    and "chats cxn' = (chats cxn)(p \<mapsto> c')" and "rooms cxn' = rooms cxn"
  shows "one_session_per_room cxn'"
  using assms by (auto simp: one_session_per_room_def)

lemma inv_fetch_chat_messages:
  assumes "one_session_per_room cxn" and "fetch_chat_messages cxn p tok = Inr cxn'"
  shows "one_session_per_room cxn'"
proof (cases "chats cxn p")
  case None
  with assms(2) show ?thesis by (simp add: fetch_chat_messages_def)
next
  case (Some c)
  from assms(2) have e: "Inr cxn' = fetch_chat_messages cxn p tok" by simp
  have ch: "chats cxn' = (chats cxn)(p \<mapsto> c\<lparr>msgs_msg := Some (next_msg cxn)\<rparr>)"
    and ro: "rooms cxn' = rooms cxn"
    using e unfolding fetch_chat_messages_eq [OF Some] by simp_all
  show ?thesis by (rule inv_upd_chat [OF assms(1) Some _ ch ro]) simp
qed

lemma inv_complete_chat_setup:
  assumes "one_session_per_room cxn" and "chime_complete_chat_setup from_iso now cxn p = Inr cxn'"
  shows "one_session_per_room cxn'"
proof (cases "chats cxn p")
  case None
  with assms(2) show ?thesis by (simp add: chime_complete_chat_setup_def)
next
  case (Some c)
  from assms(2) have e: "Inr cxn' = chime_complete_chat_setup from_iso now cxn p" by simp
  have ch: "chats cxn' = (chats cxn)(p \<mapsto> c\<lparr>messages := None\<rparr>)"
    and ro: "rooms cxn' = rooms cxn"
    using e unfolding complete_chat_setup_eq [OF Some] by simp_all
  show ?thesis by (rule inv_upd_chat [OF assms(1) Some _ ch ro]) simp
qed

lemma inv_fetch_msgs_cb:
  assumes "one_session_per_room cxn" and "fetch_msgs_cb from_iso now cxn nd p = Inr cxn'"
  shows "one_session_per_room cxn'"
proof (cases "chats cxn p")
  case None
  with assms(2) show ?thesis by (simp add: fetch_msgs_cb_def)
next
  case (Some c)
  let ?elems = "json_array_elements (json_object_get_member nd ''Messages'')"
  from assms(2) Some obtain t where
    t: "json_array_foreach_element ?elems one_msg_cb (messages c) = Inr t"
    by (auto simp: fetch_msgs_cb_def Let_def split: sum.splits)
  let ?c2 = "c\<lparr>msgs_msg := None, messages := t\<rparr>"
  let ?cxn1 = "cxn\<lparr>chats := (chats cxn)(p \<mapsto> ?c2)\<rparr>"
  have inv1: "one_session_per_room ?cxn1"
    by (rule inv_upd_chat [OF assms(1) Some, where c' = ?c2]) simp_all
  show ?thesis
  proof (cases "parse_string nd ''NextToken''")
    case None
    with assms(2) Some t have "chime_complete_chat_setup from_iso now ?cxn1 p = Inr cxn'"
      by (simp add: fetch_msgs_cb_def Let_def)
    with inv1 show ?thesis by (rule inv_complete_chat_setup)
  next
    case tk: (Some tk)
    with assms(2) Some t have "fetch_chat_messages ?cxn1 p (Some tk) = Inr cxn'"
      by (simp add: fetch_msgs_cb_def Let_def)
    with inv1 show ?thesis by (rule inv_fetch_chat_messages)
  qed
qed

lemma inv_chat_msg_cb:
  assumes "one_session_per_room cxn" and "chat_msg_cb from_iso now cxn d nd = Inr cxn'"
  shows "one_session_per_room cxn'"
proof (cases "json_object_get_member nd ''record''")
  case None
  with assms show ?thesis by (simp add: chat_msg_cb_def)
next
  case (Some r)
  show ?thesis
  proof (cases d)
    case (RoomPtr x)
    with assms Some show ?thesis by (simp add: chat_msg_cb_def)
  next
    case (ChatPtr p)
    show ?thesis
    proof (cases "chats cxn p")
      case None
      with assms Some ChatPtr show ?thesis by (simp add: chat_msg_cb_def)
    next
      case c: (Some c)
      show ?thesis
      proof (cases "messages c")
        case None
        with assms(2) Some ChatPtr c
        have "cxn' = chat_deliver_msg from_iso now cxn c r (to_int now)"
          by (simp add: chat_msg_cb_def)
        then show ?thesis by (intro inv_same_chats_rooms [OF assms(1)]) simp_all
      next
        case h: (Some h)
        show ?thesis
        proof (cases "parse_string r ''MessageId''")
          case None
          with assms Some ChatPtr c h show ?thesis by (simp add: chat_msg_cb_def)
        next
          case i: (Some i)
          with assms(2) Some ChatPtr c h obtain h' where
            "cxn' = cxn\<lparr>chats := (chats cxn)(p \<mapsto> c\<lparr>messages := Some h'\<rparr>)\<rparr>"
            by (auto simp: chat_msg_cb_def split: sum.splits)
          then show ?thesis
            by (intro inv_upd_chat [OF assms(1) c, where c' = "c\<lparr>messages := Some h'\<rparr>"])
               simp_all
        qed
      qed
    qed
  qed
qed

lemma inv_jugg_dispatch:
  assumes "one_session_per_room cxn" and "jugg_dispatch from_iso now ds nd cxn = Inr cxn'"
  shows "one_session_per_room cxn'"
  using assms
  by (induction ds arbitrary: cxn) (auto split: sum.splits dest: inv_chat_msg_cb)

lemma inv_join:
  assumes "one_session_per_room cxn" and "chime_purple_join_chat cxn data = Inr cxn'"
  shows "one_session_per_room cxn'"
proof (cases "\<exists>roomid r. data ''RoomId'' = Some roomid \<and> rooms_by_id cxn roomid = Some r \<and>
    chat (rooms cxn r) = None")
  case False
  with assms(2) have "cxn' = cxn"
    by (auto simp: chime_purple_join_chat_def split: option.splits if_splits)
  with assms(1) show ?thesis by simp
next
  case True
  then obtain roomid r where d: "data ''RoomId'' = Some roomid"
    and r: "rooms_by_id cxn roomid = Some r" and free: "chat (rooms cxn r) = None"
    by blast
  let ?p = "brk cxn"
  let ?c = "\<lparr>room = r, conv = chat_id cxn + 1, msgs_msg = None, members_msg = None,
             got_members = False, got_msgs = False, messages = Some [], members = None\<rparr>"
  let ?cxn4 = "chime_jugg_subscribe
      ((serv_got_joined_chat
         (cxn\<lparr>brk := Suc ?p, chats := (chats cxn)(?p \<mapsto> ?c),
               rooms := (rooms cxn)(r := (rooms cxn r)\<lparr>chat := Some ?p\<rparr>),
               chat_id := chat_id cxn + 1\<rparr>) (chat_id cxn + 1) (data ''Name''))
         \<lparr>live_chats := (live_chats cxn)(GUINT_TO_POINTER (chat_id cxn + 1) \<mapsto> ?p)\<rparr>)
      (channel (rooms cxn r)) (ChatPtr ?p)"
  have run: "fetch_chat_messages ?cxn4 ?p None = Inr cxn'"
    using assms(2) d r free
    by (simp add: chime_purple_join_chat_def Let_def serv_got_joined_chat_def
        chime_jugg_subscribe_def)
  have "one_session_per_room ?cxn4"
    using assms(1) free
    by (auto simp: one_session_per_room_def chime_jugg_subscribe_def serv_got_joined_chat_def)
  from this run show ?thesis by (rule inv_fetch_chat_messages)
qed

lemma inv_destroy:
  assumes "one_session_per_room cxn" and "chime_destroy_chat cxn p = Inr cxn'"
  shows "one_session_per_room cxn'"
proof (cases "chats cxn p")
  case None
  with assms(2) show ?thesis by (simp add: chime_destroy_chat_def)
next
  case (Some c)
  from assms(1) Some have bptr: "chat (rooms cxn (room c)) = Some p"
    by (simp add: one_session_per_room_def)
  from assms(2) Some bptr
  have ch: "chats cxn' = (chats cxn)(p := None)"
    and ro: "rooms cxn' = (rooms cxn)(room c := (rooms cxn (room c))\<lparr>chat := None\<rparr>)"
    by (auto simp: chime_destroy_chat_def Let_def soup_session_cancel_message_def
        chime_jugg_unsubscribe_def serv_got_chat_left_def split: option.splits)
  show ?thesis
    unfolding one_session_per_room_def
  proof (intro allI impI)
    fix q c'
    assume "chats cxn' q = Some c'"
    with ch have q: "q \<noteq> p" "chats cxn q = Some c'" by (auto split: if_splits)
    with assms(1) have b: "chat (rooms cxn (room c')) = Some q"
      by (simp add: one_session_per_room_def)
    with bptr q have "room c' \<noteq> room c" by auto
    with b ro show "chat (rooms cxn' (room c')) = Some q" by simp
  qed
qed

lemma inv_release_tree:
  assumes "one_session_per_room cxn"
  shows "one_session_per_room (release_tree cxn)"
  using assms by (auto simp: one_session_per_room_def release_tree_def)

lemma inv_released:
  assumes "released res = Inr cxn'" and "\<And>cxn1. res = Inr cxn1 \<Longrightarrow> one_session_per_room cxn1"
  shows "one_session_per_room cxn'"
  using assms by (auto simp: released_def inv_release_tree split: sum.splits)

lemma inv_step:
  assumes "one_session_per_room cxn" and "step from_iso cxn e = Inr cxn'"
  shows "one_session_per_room cxn'"
proof (cases e)
  case (Join data)
  with assms show ?thesis by (auto dest: inv_join)
next
  case (Leave i)
  with assms show ?thesis
    by (auto simp: chime_purple_chat_leave_def split: option.splits dest: inv_destroy)
next
  case (Page m nd now)
  show ?thesis
  proof (cases "map_of (soup_sess cxn) m")
    case None
    with assms Page show ?thesis by simp
  next
    case (Some msg)
    let ?cxn1 = "cxn\<lparr>soup_sess := filter (\<lambda>(m', x). m' \<noteq> m) (soup_sess cxn)\<rparr>"
    have inv1: "one_session_per_room ?cxn1"
      using assms(1) by (rule inv_same_chats_rooms) simp_all
    have "released (fetch_msgs_cb from_iso now ?cxn1 nd (cb_data msg)) = Inr cxn'"
      using assms(2) Page Some by simp
    then show ?thesis
      by (rule inv_released) (rule inv_fetch_msgs_cb [OF inv1])
  qed
next
  case (Push chan nd now)
  with assms(2) have "released (jugg_dispatch from_iso now
      (map snd (filter (\<lambda>(ch, d). ch = chan) (subscriptions cxn))) nd cxn) = Inr cxn'"
    by simp
  then show ?thesis
    by (rule inv_released) (rule inv_jugg_dispatch [OF assms(1)])
qed

lemma inv_run:
  assumes "one_session_per_room cxn" and "run from_iso cxn es = Inr cxn'"
  shows "one_session_per_room cxn'"
  using assms
  by (induction es arbitrary: cxn) (auto split: sum.splits dest: inv_step)

subsection \<open>The examples\<close>

lemma example_chat [simp]:
  "chats (cxn_with t) 1 = Some (chat_ex t)"
  "messages (chat_ex t) = t"
  "room_id (rooms (cxn_with t) (room (chat_ex t))) = ''R''"
  "account (cxn_with t) = Map.empty"
  "delivered (cxn_with t) = []"
  by (simp_all add: cxn_with_def cxn_ex_def chat_ex_def room_ex_def)

lemma drained_table_ex:
  "drained iso_ex table_ex =
     [msg_ex ''b'' ''1970-01-01T00:00:05Z'' ''B'', msg_ex ''a'' ''1970-01-01T00:00:10Z'' ''A'']"
  by (simp add: drained_def queued_msgs_def table_ex_def entry_ex_def insert_queued_msg_def
      msg_ex_def parse_string_def iso_ex_def compare_ms_def)

lemma drained_table_bare:
  "drained iso_ex table_bare =
     [msg_ex ''a'' ''1970-01-01T00:00:05Z'' ''A'', bare_ex ''b'' ''1970-01-01T00:00:10Z'']"
  by (simp add: drained_def queued_msgs_def table_bare_def entry_ex_def insert_queued_msg_def
      msg_ex_def bare_ex_def parse_string_def iso_ex_def compare_ms_def)

lemma drained_table_mixed:
  "drained iso_ex table_mixed =
     [msg_ex ''a'' ''1970-01-01T00:00:05Z'' ''A'', bare_ex ''b'' ''1970-01-01T00:00:10Z'']"
  by (simp add: drained_def queued_msgs_def table_mixed_def entry_ex_def insert_queued_msg_def
      msg_ex_def bare_ex_def parse_string_def iso_ex_def compare_ms_def)

lemma setup_table_bare:
  "deliveries (chime_complete_chat_setup iso_ex 0 (cxn_with (Some table_bare)) 1) =
     [\<lparr>d_id = 1, d_who = ''someone'', d_message = ''A'', d_mtime = 5,
       d_node = msg_ex ''a'' ''1970-01-01T00:00:05Z'' ''A''\<rparr>]"
  "watermark (chime_complete_chat_setup iso_ex 0 (cxn_with (Some table_bare)) 1) ''last-room-R'' =
     Some ''1970-01-01T00:00:10Z''"
  by (simp_all add: deliveries_def watermark_def chime_complete_chat_setup_def cxn_with_def
      cxn_ex_def chat_ex_def room_ex_def queued_msgs_def table_bare_def entry_ex_def
      insert_queued_msg_def msg_ex_def bare_ex_def parse_string_def iso_ex_def compare_ms_def Let_def
      chat_deliver_msg_def serv_got_chat_in_def purple_account_set_string_def to_int_def)

text \<open>The definitions that a run of the example unfolds.\<close>

lemmas model_defs =
  chime_purple_join_chat_def chime_purple_chat_leave_def chime_destroy_chat_def
  fetch_chat_messages_def fetch_msgs_cb_def chime_complete_chat_setup_def chat_msg_cb_def
  chat_deliver_msg_def queued_msgs_def insert_queued_msg_def one_msg_cb_def compare_ms_def
  parse_string_def chime_queue_http_request_def soup_session_cancel_message_def
  chime_jugg_subscribe_def chime_jugg_unsubscribe_def purple_account_get_string_def
  purple_account_set_string_def serv_got_joined_chat_def serv_got_chat_left_def
  serv_got_chat_in_def GUINT_TO_POINTER_def to_int_def Let_def g_hash_table_insert_def
  g_hash_table_lookup_node_def key_hash_def g_str_hash_def release_entry_def release_tree_def
  released_def

lemmas example_defs =
  iso_ex_def room_ex_def cxn_ex_def join_ex_def msg_ex_def bare_ex_def page_ex_def push_ex_def

lemmas view_defs =
  deliveries_def delivered_ids_def delivered_texts_def watermark_def requests_def
  subscribed_def live_chat_def chat_at_def room_chat_def message_id_def

lemma join_ex_state:
  "\<exists>cxn'. run iso_ex cxn_ex [join_ex, join_ex] = Inr cxn' \<and> chats cxn' 1 \<noteq> None \<and> chats cxn' 2 = None"
  by (simp add: model_defs example_defs)

text \<open>
  A live event that arrives while the chat catches up is stored as the whole event,
  not as its record, so the drain finds no \<^verbatim>\<open>CreatedOn\<close> in it: message \<open>c\<close> is
  never shown.
\<close>

lemma buffered_live_event_is_lost:
  "delivered_ids
     (run iso_ex cxn_ex
        [join_ex,
         Push ''chat_room!R'' (push_ex (msg_ex ''c'' ''1970-01-01T00:00:20Z'' ''C'')) 100,
         Page 1 (page_ex [msg_ex ''a'' ''1970-01-01T00:00:10Z'' ''A'',
                          msg_ex ''b'' ''1970-01-01T00:00:05Z'' ''B'']) 101]) =
   [Some ''b'', Some ''a'']"
  by (simp add: model_defs example_defs view_defs)

lemma store_pages_ex: "store_pages pages_ex (Some []) = Inr (Some table_paged)"
  by (simp add: pages_ex_def table_paged_def model_defs example_defs)

lemma no_third_insert_ex: "no_third_insert pages_ex"
  by (simp add: no_third_insert_def id_hashes_def List.map_filter_simps pages_ex_def
      message_id_def msg_ex_def parse_string_def key_hash_def g_str_hash_def)

lemma drained_table_paged:
  "drained iso_ex table_paged =
     [msg_ex ''b'' ''1970-01-01T00:00:05Z'' ''B'', msg_ex ''a'' ''1970-01-01T00:00:10Z'' ''second'']"
  by (simp add: drained_def queued_msgs_def table_paged_def insert_queued_msg_def
      msg_ex_def parse_string_def iso_ex_def compare_ms_def)

text \<open>
  The key of an entry is freed by the second insert under it when the page of the
  first is gone, and a third insert reads it: with three pages that carry message
  \<open>a\<close> the third page compares its key with freed memory.
\<close>

lemma third_page_reads_freed_key:
  "run iso_ex cxn_ex
     [join_ex,
      Page 1 (JObject [(''Messages'', JArray [msg_ex ''a'' ''1970-01-01T00:00:05Z'' ''first'']),
                       (''NextToken'', JString ''X'')]) 100,
      Page 2 (JObject [(''Messages'', JArray [msg_ex ''a'' ''1970-01-01T00:00:05Z'' ''second'']),
                       (''NextToken'', JString ''Y'')]) 101,
      Page 3 (page_ex [msg_ex ''a'' ''1970-01-01T00:00:05Z'' ''third'']) 102] =
   Inl UseAfterFree"
  by (simp add: model_defs example_defs)

subsection \<open>The claims\<close>

text \<open>
  Claim C1, as amended. History pages in which no key hash occurs more than twice are
  stored without a fault. Whenever the pages of the history, however many and however
  often an id recurs in them, have been stored without an insert reading a freed
  key, the drain delivers at most one record per message id, and exactly one for
  every id whose last record has a \<^verbatim>\<open>CreatedOn\<close> that parses and a \<^verbatim>\<open>Content\<close>. Once
  the chat is live, every live event whose record has a \<^verbatim>\<open>Content\<close> is delivered
  when it arrives, once per event; the ids delivered before are not consulted.
\<close>

theorem each_history_id_shown_once:
  "(no_third_insert pgs \<longrightarrow> (\<exists>h. store_pages pgs (Some []) = Inr (Some h))) \<and>
   (chats cxn p = Some c \<longrightarrow> messages c = Some h \<longrightarrow>
    store_pages pgs (Some []) = Inr (Some h) \<longrightarrow>
      (\<exists>cxn' ds. chime_complete_chat_setup from_iso now cxn p = Inr cxn' \<and>
         delivered cxn' = delivered cxn @ ds \<and>
         distinct (map message_id (map d_node ds)) \<and>
         (\<forall>i nd. find (\<lambda>nd. message_id nd = Some i) (rev (concat pgs)) = Some nd \<longrightarrow>
            parsable from_iso nd \<longrightarrow> has_content nd \<longrightarrow>
            count_list (map message_id (map d_node ds)) (Some i) = 1))) \<and>
   (chats cxn p = Some c \<longrightarrow> messages c = None \<longrightarrow>
    json_object_get_member ev ''record'' = Some r \<longrightarrow> has_content r \<longrightarrow>
      (\<exists>cxn' d. chat_msg_cb from_iso now cxn (ChatPtr p) ev = Inr cxn' \<and>
         delivered cxn' = delivered cxn @ [d] \<and> d_node d = r))"
proof (intro conjI impI)
  assume "no_third_insert pgs"
  then show "\<exists>h. store_pages pgs (Some []) = Inr (Some h)" by (rule no_third_insert_stores)
next
  assume c: "chats cxn p = Some c" and h: "messages c = Some h"
    and st: "store_pages pgs (Some []) = Inr (Some h)"
  from stored_pages_drain [OF c h, of from_iso now]
  obtain cxn' ds where run: "chime_complete_chat_setup from_iso now cxn p = Inr cxn'"
    and ds: "delivered cxn' = delivered cxn @ ds"
    and nodes: "map d_node ds = filter has_content (drained from_iso h)"
    by blast
  have wk: "well_keyed h" using st by (rule stored_pages_table)
  have d: "distinct (map message_id (map d_node ds))"
    unfolding nodes using wk by (rule drained_ids_distinct)
  have once: "count_list (map message_id (map d_node ds)) (Some i) = 1"
    if f: "find (\<lambda>nd. message_id nd = Some i) (rev (concat pgs)) = Some nd"
      and ok: "parsable from_iso nd" "has_content nd" for i nd
  proof -
    from f have "map_of (pairs h) i = Some nd"
      by (simp only: stored_pages_table(2) [OF st])
    then have "(i, nd) \<in> set (pairs h)" by (rule map_of_SomeD)
    then have "nd \<in> set (filter (parsable from_iso) (map e_value h))"
      using ok(1) by (force simp: pairs_def)
    then have "nd \<in> set (drained from_iso h)"
      by (simp only: drained_set)
    then have "nd \<in> set (map d_node ds)"
      unfolding nodes using ok(2) by simp
    moreover from f have "message_id nd = Some i"
      by (auto simp: find_Some_iff)
    ultimately have "Some i \<in> set (map message_id (map d_node ds))"
      by (metis image_eqI list.set_map)
    with d show ?thesis by (rule count_list_distinct)
  qed
  from run ds d once
  show "\<exists>cxn' ds. chime_complete_chat_setup from_iso now cxn p = Inr cxn' \<and>
         delivered cxn' = delivered cxn @ ds \<and>
         distinct (map message_id (map d_node ds)) \<and>
         (\<forall>i nd. find (\<lambda>nd. message_id nd = Some i) (rev (concat pgs)) = Some nd \<longrightarrow>
            parsable from_iso nd \<longrightarrow> has_content nd \<longrightarrow>
            count_list (map message_id (map d_node ds)) (Some i) = 1)"
    by blast
next
  assume "chats cxn p = Some c" "messages c = None"
    "json_object_get_member ev ''record'' = Some r" "has_content r"
  then show "\<exists>cxn' d. chat_msg_cb from_iso now cxn (ChatPtr p) ev = Inr cxn' \<and>
         delivered cxn' = delivered cxn @ [d] \<and> d_node d = r"
    by (auto simp: chat_msg_cb_live chat_deliver_msg_def serv_got_chat_in_def has_content_def Let_def)
qed

theorem each_history_id_shown_once_witness:
  "no_third_insert pages_ex \<and>
   store_pages pages_ex (Some []) = Inr (Some table_paged) \<and>
   chats (cxn_with (Some table_paged)) 1 = Some (chat_ex (Some table_paged)) \<and>
   (\<exists>cxn' ds. chime_complete_chat_setup iso_ex 0 (cxn_with (Some table_paged)) 1 = Inr cxn' \<and>
      delivered cxn' = ds \<and>
      distinct (map message_id (map d_node ds)) \<and>
      count_list (map message_id (map d_node ds)) (Some ''a'') = 1) \<and>
   chats (cxn_with None) 1 = Some (chat_ex None) \<and>
   has_content (msg_ex ''a'' ''1970-01-01T00:00:10Z'' ''second'') \<and>
   (\<exists>cxn' d. chat_msg_cb iso_ex 7 (cxn_with None) (ChatPtr 1)
        (push_ex (msg_ex ''a'' ''1970-01-01T00:00:10Z'' ''second'')) = Inr cxn' \<and>
      delivered cxn' = [d] \<and> d_node d = msg_ex ''a'' ''1970-01-01T00:00:10Z'' ''second'')"
proof -
  let ?m3 = "msg_ex ''a'' ''1970-01-01T00:00:10Z'' ''second''"
  have f: "find (\<lambda>nd. message_id nd = Some ''a'') (rev (concat pages_ex)) = Some ?m3"
    by (simp add: pages_ex_def message_id_def msg_ex_def parse_string_def)
  have ok: "parsable iso_ex ?m3" "has_content ?m3"
    by (simp_all add: parsable_def created_on_def has_content_def msg_ex_def parse_string_def
        iso_ex_def)
  have rec: "json_object_get_member (push_ex ?m3) ''record'' = Some ?m3"
    by (simp add: push_ex_def)
  have c1: "chats (cxn_with (Some table_paged)) 1 = Some (chat_ex (Some table_paged))"
    and c2: "chats (cxn_with None) 1 = Some (chat_ex None)"
    by (rule example_chat)+
  have m1: "messages (chat_ex (Some table_paged)) = Some table_paged"
    and m2: "messages (chat_ex None) = None"
    by (rule example_chat)+
  have d0: "delivered (cxn_with (Some table_paged)) = []" "delivered (cxn_with None) = []"
    by (rule example_chat)+
  note w1 = each_history_id_shown_once [where cxn = "cxn_with (Some table_paged)" and p = 1
      and c = "chat_ex (Some table_paged)" and pgs = pages_ex and h = table_paged
      and from_iso = iso_ex and now = 0 and ev = JNull and r = JNull,
      THEN conjunct2, THEN conjunct1, rule_format, OF c1 m1 store_pages_ex]
  note w2 = each_history_id_shown_once [where cxn = "cxn_with None" and p = 1
      and c = "chat_ex None" and pgs = "[]" and h = "[]" and from_iso = iso_ex and now = 7
      and ev = "push_ex ?m3" and r = ?m3,
      THEN conjunct2, THEN conjunct2, rule_format, OF c2 m2 rec ok(2)]
  from w1 obtain cxn' ds where
    r: "chime_complete_chat_setup iso_ex 0 (cxn_with (Some table_paged)) 1 = Inr cxn'"
    and a: "delivered cxn' = delivered (cxn_with (Some table_paged)) @ ds"
    and b: "distinct (map message_id (map d_node ds))"
    and c: "\<forall>i nd. find (\<lambda>nd. message_id nd = Some i) (rev (concat pages_ex)) = Some nd \<longrightarrow>
            parsable iso_ex nd \<longrightarrow> has_content nd \<longrightarrow>
            count_list (map message_id (map d_node ds)) (Some i) = 1"
    by blast
  from c f ok have "count_list (map message_id (map d_node ds)) (Some ''a'') = 1"
    by blast
  with r a b d0 have part1: "\<exists>cxn' ds. chime_complete_chat_setup iso_ex 0 (cxn_with (Some table_paged)) 1 = Inr cxn' \<and>
      delivered cxn' = ds \<and> distinct (map message_id (map d_node ds)) \<and>
      count_list (map message_id (map d_node ds)) (Some ''a'') = 1"
    by (simp del: One_nat_def)
  from w2 d0 have part2: "\<exists>cxn' d. chat_msg_cb iso_ex 7 (cxn_with None) (ChatPtr 1) (push_ex ?m3) = Inr cxn' \<and>
      delivered cxn' = [d] \<and> d_node d = ?m3"
    by (simp del: One_nat_def)
  from no_third_insert_ex store_pages_ex c1 part1 c2 ok(2) part2 show ?thesis
    by (intro conjI)
qed

text \<open>
  Claim C1 as stated fails: message \<open>a\<close> comes with the only history page and is
  shown by the drain; the live feed then sends the same message, and it is shown a
  second time.
\<close>

theorem history_then_live_delivers_twice:
  "delivered_ids
     (run iso_ex cxn_ex
        [join_ex,
         Page 1 (page_ex [msg_ex ''a'' ''1970-01-01T00:00:05Z'' ''A'']) 100,
         Push ''chat_room!R'' (push_ex (msg_ex ''a'' ''1970-01-01T00:00:05Z'' ''A'')) 101]) =
   [Some ''a'', Some ''a'']"
  by (simp add: model_defs example_defs view_defs)

text \<open>
  Claim C2, as amended. The insert is last-write-wins. An insert that reads no freed
  key leaves the new node under its key, in place of the node that was there, and
  the other keys as they were. When the pages of the history have been stored
  without an insert reading a freed key, the table has one entry per
  \<^verbatim>\<open>MessageId\<close> and the node it holds for an id is the last record of the pages with
  that id. The drain then delivers no record but the last one of its id, and it
  delivers the last record of every id when that record has a \<^verbatim>\<open>CreatedOn\<close> that
  parses and a \<^verbatim>\<open>Content\<close>.
\<close>

theorem insert_last_write_wins:
  "(g_hash_table_insert t k v = Inr t' \<longrightarrow> map_of (pairs t') = (map_of (pairs t))(k \<mapsto> v)) \<and>
   (store_pages pgs (Some []) = Inr (Some h) \<longrightarrow>
      distinct (map e_key h) \<and>
      map_of (pairs h) i = find (\<lambda>nd. message_id nd = Some i) (rev (concat pgs))) \<and>
   (store_pages pgs (Some []) = Inr (Some h) \<longrightarrow>
    chats cxn p = Some c \<longrightarrow> messages c = Some h \<longrightarrow>
      (\<exists>cxn' ds. chime_complete_chat_setup from_iso now cxn p = Inr cxn' \<and>
         delivered cxn' = delivered cxn @ ds \<and>
         (\<forall>d\<in>set ds.
            find (\<lambda>nd. message_id nd = message_id (d_node d)) (rev (concat pgs)) =
              Some (d_node d)) \<and>
         (\<forall>j nd. find (\<lambda>nd. message_id nd = Some j) (rev (concat pgs)) = Some nd \<longrightarrow>
            parsable from_iso nd \<longrightarrow> has_content nd \<longrightarrow> nd \<in> set (map d_node ds))))"
proof (intro conjI impI)
  assume "g_hash_table_insert t k v = Inr t'"
  then show "map_of (pairs t') = (map_of (pairs t))(k \<mapsto> v)"
    by (simp only: insert_pairs)
next
  assume st: "store_pages pgs (Some []) = Inr (Some h)"
  from stored_pages_table(1) [OF st] show "distinct (map e_key h)"
    by (simp add: well_keyed_def)
  show "map_of (pairs h) i = find (\<lambda>nd. message_id nd = Some i) (rev (concat pgs))"
    using st by (rule stored_pages_table)
next
  assume st: "store_pages pgs (Some []) = Inr (Some h)"
    and c: "chats cxn p = Some c" and h: "messages c = Some h"
  from stored_pages_drain [OF c h, of from_iso now]
  obtain cxn' ds where run: "chime_complete_chat_setup from_iso now cxn p = Inr cxn'"
    and ds: "delivered cxn' = delivered cxn @ ds"
    and nodes: "map d_node ds = filter has_content (drained from_iso h)"
    by blast
  have wk: "well_keyed h" using st by (rule stored_pages_table)
  have last: "find (\<lambda>nd. message_id nd = message_id (d_node d)) (rev (concat pgs)) =
      Some (d_node d)" if "d \<in> set ds" for d
  proof -
    from that have "d_node d \<in> set (map d_node ds)" by simp
    then have "d_node d \<in> set (drained from_iso h)"
      unfolding nodes by simp
    then have "d_node d \<in> set (map e_value h)"
      by (simp only: drained_set) simp
    from well_keyed_value [OF wk this] obtain k where
      k: "message_id (d_node d) = Some k" "map_of (pairs h) k = Some (d_node d)"
      by blast
    from k(2) have "find (\<lambda>nd. message_id nd = Some k) (rev (concat pgs)) = Some (d_node d)"
      by (simp only: stored_pages_table(2) [OF st])
    with k(1) show ?thesis by simp
  qed
  have shown: "nd \<in> set (map d_node ds)"
    if f: "find (\<lambda>nd. message_id nd = Some j) (rev (concat pgs)) = Some nd"
      and ok: "parsable from_iso nd" "has_content nd" for j nd
  proof -
    from f have "map_of (pairs h) j = Some nd"
      by (simp only: stored_pages_table(2) [OF st])
    then have "(j, nd) \<in> set (pairs h)" by (rule map_of_SomeD)
    then have "nd \<in> set (filter (parsable from_iso) (map e_value h))"
      using ok(1) by (force simp: pairs_def)
    then have "nd \<in> set (drained from_iso h)"
      by (simp only: drained_set)
    then show ?thesis
      unfolding nodes using ok(2) by simp
  qed
  from run ds last shown
  show "\<exists>cxn' ds. chime_complete_chat_setup from_iso now cxn p = Inr cxn' \<and>
         delivered cxn' = delivered cxn @ ds \<and>
         (\<forall>d\<in>set ds.
            find (\<lambda>nd. message_id nd = message_id (d_node d)) (rev (concat pgs)) =
              Some (d_node d)) \<and>
         (\<forall>j nd. find (\<lambda>nd. message_id nd = Some j) (rev (concat pgs)) = Some nd \<longrightarrow>
            parsable from_iso nd \<longrightarrow> has_content nd \<longrightarrow> nd \<in> set (map d_node ds))"
    by blast
qed

theorem insert_last_write_wins_witness:
  "g_hash_table_insert [entry_ex ''a'' (msg_ex ''a'' ''1970-01-01T00:00:10Z'' ''first'')] ''a''
       (msg_ex ''a'' ''1970-01-01T00:00:10Z'' ''second'') =
     Inr [\<lparr>e_key = ''a'', e_state = KeyInTree, e_fresh = True,
           e_value = msg_ex ''a'' ''1970-01-01T00:00:10Z'' ''second''\<rparr>] \<and>
   map_of (pairs [\<lparr>e_key = ''a'', e_state = KeyInTree, e_fresh = True,
                   e_value = msg_ex ''a'' ''1970-01-01T00:00:10Z'' ''second''\<rparr>]) =
     (map_of (pairs [entry_ex ''a'' (msg_ex ''a'' ''1970-01-01T00:00:10Z'' ''first'')]))
       (''a'' \<mapsto> msg_ex ''a'' ''1970-01-01T00:00:10Z'' ''second'') \<and>
   store_pages pages_ex (Some []) = Inr (Some table_paged) \<and>
   chats (cxn_with (Some table_paged)) 1 = Some (chat_ex (Some table_paged)) \<and>
   messages (chat_ex (Some table_paged)) = Some table_paged \<and>
   map_of (pairs table_paged) ''a'' = Some (msg_ex ''a'' ''1970-01-01T00:00:10Z'' ''second'') \<and>
   parsable iso_ex (msg_ex ''a'' ''1970-01-01T00:00:10Z'' ''second'') \<and>
   has_content (msg_ex ''a'' ''1970-01-01T00:00:10Z'' ''second'') \<and>
   (\<exists>cxn' ds. chime_complete_chat_setup iso_ex 0 (cxn_with (Some table_paged)) 1 = Inr cxn' \<and>
      delivered cxn' = ds \<and>
      msg_ex ''a'' ''1970-01-01T00:00:10Z'' ''second'' \<in> set (map d_node ds) \<and>
      msg_ex ''a'' ''1970-01-01T00:00:10Z'' ''first'' \<notin> set (map d_node ds))"
proof -
  let ?m1 = "msg_ex ''a'' ''1970-01-01T00:00:10Z'' ''first''"
  let ?m3 = "msg_ex ''a'' ''1970-01-01T00:00:10Z'' ''second''"
  let ?t' = "[\<lparr>e_key = ''a'', e_state = KeyInTree, e_fresh = True, e_value = ?m3\<rparr>]"
  have ins: "g_hash_table_insert [entry_ex ''a'' ?m1] ''a'' ?m3 = Inr ?t'"
    by (simp add: g_hash_table_insert_def g_hash_table_lookup_node_def entry_ex_def)
  have f: "find (\<lambda>nd. message_id nd = Some ''a'') (rev (concat pages_ex)) = Some ?m3"
    by (simp add: pages_ex_def message_id_def msg_ex_def parse_string_def)
  have id1: "message_id ?m1 = Some ''a''"
    by (simp add: message_id_def msg_ex_def parse_string_def)
  have ne: "?m1 \<noteq> ?m3" by (simp add: msg_ex_def)
  have ok: "parsable iso_ex ?m3" "has_content ?m3"
    by (simp_all add: parsable_def created_on_def has_content_def msg_ex_def parse_string_def
        iso_ex_def)
  have c1: "chats (cxn_with (Some table_paged)) 1 = Some (chat_ex (Some table_paged))"
    and m1: "messages (chat_ex (Some table_paged)) = Some table_paged"
    and d0: "delivered (cxn_with (Some table_paged)) = []"
    by (rule example_chat)+
  note w = insert_last_write_wins [where t = "[entry_ex ''a'' ?m1]" and k = "''a''" and v = ?m3
      and t' = ?t' and pgs = pages_ex and h = table_paged and i = "''a''"
      and cxn = "cxn_with (Some table_paged)" and p = 1 and c = "chat_ex (Some table_paged)"
      and from_iso = iso_ex and now = 0]
  from w [THEN conjunct2, THEN conjunct1, rule_format, OF store_pages_ex] f
  have look: "map_of (pairs table_paged) ''a'' = Some ?m3" by simp
  from w [THEN conjunct2, THEN conjunct2, rule_format, OF store_pages_ex c1 m1]
  obtain cxn' ds where
    r: "chime_complete_chat_setup iso_ex 0 (cxn_with (Some table_paged)) 1 = Inr cxn'"
    and a: "delivered cxn' = delivered (cxn_with (Some table_paged)) @ ds"
    and b: "\<forall>d\<in>set ds.
        find (\<lambda>nd. message_id nd = message_id (d_node d)) (rev (concat pages_ex)) = Some (d_node d)"
    and c: "\<forall>j nd. find (\<lambda>nd. message_id nd = Some j) (rev (concat pages_ex)) = Some nd \<longrightarrow>
        parsable iso_ex nd \<longrightarrow> has_content nd \<longrightarrow> nd \<in> set (map d_node ds)"
    by blast
  from c f ok have in3: "?m3 \<in> set (map d_node ds)" by blast
  have out1: "?m1 \<notin> set (map d_node ds)"
  proof
    assume "?m1 \<in> set (map d_node ds)"
    then obtain d where d: "d \<in> set ds" "d_node d = ?m1" by auto
    from b d have "find (\<lambda>nd. message_id nd = message_id ?m1) (rev (concat pages_ex)) = Some ?m1"
      by auto
    with f id1 ne show False by simp
  qed
  from a d0 have a': "delivered cxn' = ds" by simp
  have part: "\<exists>cxn' ds. chime_complete_chat_setup iso_ex 0 (cxn_with (Some table_paged)) 1 = Inr cxn' \<and>
      delivered cxn' = ds \<and> ?m3 \<in> set (map d_node ds) \<and> ?m1 \<notin> set (map d_node ds)"
    apply (rule exI [of _ cxn'])
    apply (rule exI [of _ ds])
    apply (intro conjI)
       apply (rule r)
      apply (rule a')
     apply (rule in3)
    apply (rule out1)
    done
  from w [THEN conjunct1] ins
  have upd: "map_of (pairs ?t') = (map_of (pairs [entry_ex ''a'' ?m1]))(''a'' \<mapsto> ?m3)"
    by blast
  from ins upd store_pages_ex c1 m1 look ok part show ?thesis
    by (intro conjI)
qed

text \<open>
  Claim C2 as stated fails: two pages carry message \<open>a\<close> with different bodies; the
  body that is shown is that of the second page.
\<close>

theorem first_write_does_not_win:
  "delivered_texts
     (run iso_ex cxn_ex
        [join_ex,
         Page 1 (JObject [(''Messages'', JArray [msg_ex ''a'' ''1970-01-01T00:00:05Z'' ''first'']),
                          (''NextToken'', JString ''X'')]) 100,
         Page 2 (page_ex [msg_ex ''a'' ''1970-01-01T00:00:05Z'' ''second'']) 101]) =
   [''second'']"
  by (simp add: model_defs example_defs view_defs)

text \<open>
  Claim C3, as amended. Whatever the messages table holds when the last page has
  arrived, the drain succeeds, and the records it delivers, one call of
  \<^verbatim>\<open>serv_got_chat_in\<close> each, are in non-decreasing order of their parsed
  \<^verbatim>\<open>CreatedOn\<close> (seconds, then the sub-second part). They are exactly the stored
  records that have a \<^verbatim>\<open>CreatedOn\<close> that parses and a \<^verbatim>\<open>Content\<close>, each as often
  as it is stored. The list that the drain walks is sorted as well and holds every
  stored record whose \<^verbatim>\<open>CreatedOn\<close> parses; the records delivered are those of
  that list with a \<^verbatim>\<open>Content\<close>.
\<close>

theorem drain_shows_sorted:
  assumes "chats cxn p = Some c" and "messages c = Some h"
  shows "\<exists>cxn' ds. chime_complete_chat_setup from_iso now cxn p = Inr cxn' \<and>
           delivered cxn' = delivered cxn @ ds \<and>
           sorted_wrt (not_later from_iso) (map d_node ds) \<and>
           mset (map d_node ds) =
             mset (filter (\<lambda>nd. parsable from_iso nd \<and> has_content nd) (map e_value h)) \<and>
           map d_node ds = filter has_content (drained from_iso h) \<and>
           sorted_wrt (not_later from_iso) (drained from_iso h) \<and>
           mset (drained from_iso h) = mset (filter (parsable from_iso) (map e_value h))"
proof -
  let ?cxn1 = "cxn\<lparr>chats := (chats cxn)(p \<mapsto> c\<lparr>messages := None\<rparr>)\<rparr>"
  let ?cxn' = "deliver_queued from_iso now ?cxn1 (c\<lparr>messages := None\<rparr>)
                 (queued_msgs from_iso (Some h))"
  have run: "chime_complete_chat_setup from_iso now cxn p = Inr ?cxn'"
    using assms by (simp add: complete_chat_setup_eq)
  obtain ds where ds: "delivered ?cxn' = delivered cxn @ ds"
    using deliver_queued_appends [of from_iso now ?cxn1] by auto
  have "map d_node (delivered ?cxn') =
      map d_node (delivered cxn) @ filter has_content (drained from_iso h)"
    by (simp add: deliver_queued_nodes drained_def)
  with ds have nodes: "map d_node ds = filter has_content (drained from_iso h)" by simp
  have srt: "sorted_wrt (not_later from_iso) (map d_node ds)"
    unfolding nodes by (rule sorted_wrt_filter) (rule drained_sorted)
  have "mset (filter has_content (drained from_iso h)) =
      filter_mset has_content (mset (filter (parsable from_iso) (map e_value h)))"
    by (simp only: mset_filter drained_mset)
  also have "\<dots> = mset (filter (\<lambda>nd. parsable from_iso nd \<and> has_content nd) (map e_value h))"
    by (simp add: filter_filter_mset)
  finally have all: "mset (map d_node ds) =
      mset (filter (\<lambda>nd. parsable from_iso nd \<and> has_content nd) (map e_value h))"
    unfolding nodes .
  from run ds srt all nodes drained_sorted [of from_iso h] drained_mset [of from_iso h]
  show ?thesis by blast
qed

theorem drain_shows_sorted_witness:
  "chats (cxn_with (Some table_ex)) 1 = Some (chat_ex (Some table_ex)) \<and>
   messages (chat_ex (Some table_ex)) = Some table_ex \<and>
   (\<exists>cxn' ds. chime_complete_chat_setup iso_ex 0 (cxn_with (Some table_ex)) 1 = Inr cxn' \<and>
      delivered cxn' = ds \<and>
      map d_node ds =
        [msg_ex ''b'' ''1970-01-01T00:00:05Z'' ''B'', msg_ex ''a'' ''1970-01-01T00:00:10Z'' ''A''] \<and>
      sorted_wrt (not_later iso_ex) (map d_node ds) \<and>
      mset (map d_node ds) =
        mset (filter (\<lambda>nd. parsable iso_ex nd \<and> has_content nd) (map e_value table_ex)))"
proof -
  have h1: "chats (cxn_with (Some table_ex)) 1 = Some (chat_ex (Some table_ex))"
    and h2: "messages (chat_ex (Some table_ex)) = Some table_ex"
    by (rule example_chat)+
  have shown: "filter has_content (drained iso_ex table_ex) =
      [msg_ex ''b'' ''1970-01-01T00:00:05Z'' ''B'', msg_ex ''a'' ''1970-01-01T00:00:10Z'' ''A'']"
    unfolding drained_table_ex by (simp add: has_content_def msg_ex_def parse_string_def)
  from drain_shows_sorted [OF h1 h2, of iso_ex 0]
  obtain cxn' ds where r: "chime_complete_chat_setup iso_ex 0 (cxn_with (Some table_ex)) 1 = Inr cxn'"
    and d: "delivered cxn' = delivered (cxn_with (Some table_ex)) @ ds"
    and s: "sorted_wrt (not_later iso_ex) (map d_node ds)"
    and m: "mset (map d_node ds) =
        mset (filter (\<lambda>nd. parsable iso_ex nd \<and> has_content nd) (map e_value table_ex))"
    and n: "map d_node ds = filter has_content (drained iso_ex table_ex)"
    by blast
  from d have d': "delivered cxn' = ds" by simp
  from n shown have n': "map d_node ds =
      [msg_ex ''b'' ''1970-01-01T00:00:05Z'' ''B'', msg_ex ''a'' ''1970-01-01T00:00:10Z'' ''A'']"
    by simp
  have "\<exists>cxn' ds. chime_complete_chat_setup iso_ex 0 (cxn_with (Some table_ex)) 1 = Inr cxn' \<and>
      delivered cxn' = ds \<and>
      map d_node ds =
        [msg_ex ''b'' ''1970-01-01T00:00:05Z'' ''B'', msg_ex ''a'' ''1970-01-01T00:00:10Z'' ''A''] \<and>
      sorted_wrt (not_later iso_ex) (map d_node ds) \<and>
      mset (map d_node ds) =
        mset (filter (\<lambda>nd. parsable iso_ex nd \<and> has_content nd) (map e_value table_ex))"
    apply (rule exI [of _ cxn'])
    apply (rule exI [of _ ds])
    apply (intro conjI)
        apply (rule r)
       apply (rule d')
      apply (rule n')
     apply (rule s)
    apply (rule m)
    done
  with h1 h2 show ?thesis by (intro conjI)
qed

text \<open>
  Claim C3 as stated fails: record \<open>b\<close> is stored and its \<^verbatim>\<open>CreatedOn\<close> parses, but
  it has no \<^verbatim>\<open>Content\<close>. The drain walks \<open>a\<close> and \<open>b\<close> and delivers \<open>a\<close> alone.
\<close>

theorem parsable_record_not_shown:
  "map_of (pairs table_bare) ''b'' = Some (bare_ex ''b'' ''1970-01-01T00:00:10Z'') \<and>
   parsable iso_ex (bare_ex ''b'' ''1970-01-01T00:00:10Z'') \<and>
   drained iso_ex table_bare =
     [msg_ex ''a'' ''1970-01-01T00:00:05Z'' ''A'', bare_ex ''b'' ''1970-01-01T00:00:10Z''] \<and>
   map d_node (deliveries (chime_complete_chat_setup iso_ex 0 (cxn_with (Some table_bare)) 1)) =
     [msg_ex ''a'' ''1970-01-01T00:00:05Z'' ''A''] \<and>
   bare_ex ''b'' ''1970-01-01T00:00:10Z'' \<notin>
     set (map d_node (deliveries (chime_complete_chat_setup iso_ex 0 (cxn_with (Some table_bare)) 1)))"
  unfolding setup_table_bare drained_table_bare
  by (simp add: table_bare_def pairs_def entry_ex_def parsable_def created_on_def bare_ex_def
      msg_ex_def parse_string_def iso_ex_def)

text \<open>
  Claim C4, as amended. When the drain has finished, the watermark of the room is the
  \<^verbatim>\<open>CreatedOn\<close> string of the last record of the sorted batch, whether or not that
  record has a \<^verbatim>\<open>Content\<close> and was shown; when the batch is empty the account is
  left as it was.
\<close>

theorem watermark_is_last_of_batch:
  assumes "chats cxn p = Some c" and "messages c = Some h"
  shows "\<exists>cxn'. chime_complete_chat_setup from_iso now cxn p = Inr cxn' \<and>
           (if drained from_iso h = [] then account cxn' = account cxn
            else \<exists>t. parse_string (last (drained from_iso h)) ''CreatedOn'' = Some t \<and>
                   account cxn' =
                     (account cxn)(''last-room-'' @ room_id (rooms cxn (room c)) \<mapsto> t))"
  using assms by (rule watermark_lemma)

theorem watermark_is_last_of_batch_witness:
  "chats (cxn_with (Some table_ex)) 1 = Some (chat_ex (Some table_ex)) \<and>
   messages (chat_ex (Some table_ex)) = Some table_ex \<and>
   drained iso_ex table_ex \<noteq> [] \<and>
   (\<exists>cxn'. chime_complete_chat_setup iso_ex 0 (cxn_with (Some table_ex)) 1 = Inr cxn' \<and>
      account cxn' = [''last-room-R'' \<mapsto> ''1970-01-01T00:00:10Z''])"
proof -
  have h1: "chats (cxn_with (Some table_ex)) 1 = Some (chat_ex (Some table_ex))"
    and h2: "messages (chat_ex (Some table_ex)) = Some table_ex"
    by (rule example_chat)+
  have last: "parse_string (last (drained iso_ex table_ex)) ''CreatedOn'' =
      Some ''1970-01-01T00:00:10Z''"
    unfolding drained_table_ex by (simp add: msg_ex_def parse_string_def)
  have ne: "drained iso_ex table_ex \<noteq> []"
    unfolding drained_table_ex by simp
  from watermark_is_last_of_batch [OF h1 h2, of iso_ex 0] ne last
  obtain cxn' where "chime_complete_chat_setup iso_ex 0 (cxn_with (Some table_ex)) 1 = Inr cxn'"
    and "account cxn' = [''last-room-R'' \<mapsto> ''1970-01-01T00:00:10Z'']"
    by (auto simp del: One_nat_def)
  with h1 h2 ne show ?thesis by blast
qed

text \<open>
  Claim C4 as stated fails: the batch below ends with a record without \<^verbatim>\<open>Content\<close>.
  The only delivery is that of message \<open>a\<close>, created at second 5, and the watermark
  written is that of \<open>b\<close>, second 10.
\<close>

theorem watermark_not_of_last_delivery:
  "drained iso_ex table_bare \<noteq> [] \<and>
   deliveries (chime_complete_chat_setup iso_ex 0 (cxn_with (Some table_bare)) 1) =
     [\<lparr>d_id = 1, d_who = ''someone'', d_message = ''A'', d_mtime = 5,
       d_node = msg_ex ''a'' ''1970-01-01T00:00:05Z'' ''A''\<rparr>] \<and>
   watermark (chime_complete_chat_setup iso_ex 0 (cxn_with (Some table_bare)) 1) ''last-room-R'' =
     Some ''1970-01-01T00:00:10Z'' \<and>
   watermark (chime_complete_chat_setup iso_ex 0 (cxn_with (Some table_bare)) 1) ''last-room-R'' \<noteq>
     parse_string
       (d_node (last (deliveries (chime_complete_chat_setup iso_ex 0 (cxn_with (Some table_bare)) 1))))
       ''CreatedOn''"
  unfolding setup_table_bare drained_table_bare
  by (simp add: msg_ex_def parse_string_def)

text \<open>
  Claim C5 at a failing input. Room \<open>R\<close> is joined and left at once. The history
  request is cancelled and the chat is freed, but the subscription that the join
  registered with the chat as user data is still there: \<^verbatim>\<open>chime_destroy_chat\<close>
  unsubscribes the handler whose user data is the room. A page that arrives for the
  cancelled request is ignored, but the next event on the channel calls
  \<^verbatim>\<open>chat_msg_cb\<close> with the freed chat.
\<close>

theorem leave_keeps_subscription:
  "subscribed (run iso_ex cxn_ex [join_ex, Leave 1]) = [(''chat_room!R'', ChatPtr 1)] \<and>
   chat_at (run iso_ex cxn_ex [join_ex, Leave 1]) 1 = None \<and>
   requests (run iso_ex cxn_ex [join_ex, Leave 1]) = [] \<and>
   deliveries
     (run iso_ex cxn_ex
        [join_ex, Leave 1,
         Page 1 (page_ex [msg_ex ''a'' ''1970-01-01T00:00:05Z'' ''A'']) 100]) = [] \<and>
   run iso_ex cxn_ex
     [join_ex, Leave 1,
      Push ''chat_room!R'' (push_ex (msg_ex ''a'' ''1970-01-01T00:00:05Z'' ''A'')) 100] =
     Inl UseAfterFree"
  by (simp add: model_defs example_defs view_defs)

text \<open>
  Claim C6, as amended. Every page request carries \<^verbatim>\<open>after\<close> when the account holds
  a non-empty watermark for the room, the requests with a continuation token
  included; such a request carries both \<^verbatim>\<open>after\<close> and \<^verbatim>\<open>next-token\<close>. This holds
  for the request that \<^verbatim>\<open>fetch_chat_messages\<close> queues and for the one that
  \<^verbatim>\<open>fetch_msgs_cb\<close> queues for a page with a \<^verbatim>\<open>NextToken\<close>, once it has stored
  the records of the page.
\<close>

theorem after_sent_with_every_page:
  assumes "chats cxn p = Some c"
  shows "(\<exists>cxn'. fetch_chat_messages cxn p tok = Inr cxn' \<and>
            map query (map snd (soup_sess cxn')) =
              map query (map snd (soup_sess cxn)) @ [page_query cxn c tok]) \<and>
         (parse_string nd ''NextToken'' = Some t \<longrightarrow>
          json_array_foreach_element (json_array_elements (json_object_get_member nd ''Messages''))
            one_msg_cb (messages c) = Inr tbl \<longrightarrow>
            (\<exists>cxn'. fetch_msgs_cb from_iso now cxn nd p = Inr cxn' \<and>
               map query (map snd (soup_sess cxn')) =
                 map query (map snd (soup_sess cxn)) @ [page_query cxn c (Some t)]))"
proof (intro conjI impI)
  show "\<exists>cxn'. fetch_chat_messages cxn p tok = Inr cxn' \<and>
            map query (map snd (soup_sess cxn')) =
              map query (map snd (soup_sess cxn)) @ [page_query cxn c tok]"
    using assms by (simp add: fetch_chat_messages_eq)
next
  assume tok: "parse_string nd ''NextToken'' = Some t"
    and st: "json_array_foreach_element
        (json_array_elements (json_object_get_member nd ''Messages''))
        one_msg_cb (messages c) = Inr tbl"
  let ?c2 = "c\<lparr>msgs_msg := None, messages := tbl\<rparr>"
  let ?cxn1 = "cxn\<lparr>chats := (chats cxn)(p \<mapsto> ?c2)\<rparr>"
  have cb: "fetch_msgs_cb from_iso now cxn nd p = fetch_chat_messages ?cxn1 p (Some t)"
    using assms tok st by (simp add: fetch_msgs_cb_def Let_def)
  have q: "page_query ?cxn1 ?c2 (Some t) = page_query cxn c (Some t)"
    by (simp add: page_query_def)
  have "chats ?cxn1 p = Some ?c2" by simp
  from fetch_chat_messages_eq [OF this, of "Some t"] cb q
  show "\<exists>cxn'. fetch_msgs_cb from_iso now cxn nd p = Inr cxn' \<and>
      map query (map snd (soup_sess cxn')) =
        map query (map snd (soup_sess cxn)) @ [page_query cxn c (Some t)]"
    by simp
qed

theorem after_sent_with_every_page_witness:
  "chats ((cxn_with (Some []))\<lparr>account := [''last-room-R'' \<mapsto> ''1970-01-01T00:00:05Z'']\<rparr>) 1 =
     Some (chat_ex (Some [])) \<and>
   (\<exists>cxn'. fetch_chat_messages
              ((cxn_with (Some []))\<lparr>account := [''last-room-R'' \<mapsto> ''1970-01-01T00:00:05Z'']\<rparr>)
              1 (Some ''X'') = Inr cxn' \<and>
      map query (map snd (soup_sess cxn')) =
        [[(''max-results'', ''50''), (''after'', ''1970-01-01T00:00:05Z''), (''next-token'', ''X'')]]) \<and>
   parse_string (JObject [(''Messages'', JArray [msg_ex ''a'' ''1970-01-01T00:00:10Z'' ''A'']),
                          (''NextToken'', JString ''X'')]) ''NextToken'' = Some ''X'' \<and>
   json_array_foreach_element [msg_ex ''a'' ''1970-01-01T00:00:10Z'' ''A''] one_msg_cb (Some []) =
     Inr (Some [entry_ex ''a'' (msg_ex ''a'' ''1970-01-01T00:00:10Z'' ''A'')]) \<and>
   (\<exists>cxn'. fetch_msgs_cb iso_ex 0
              ((cxn_with (Some []))\<lparr>account := [''last-room-R'' \<mapsto> ''1970-01-01T00:00:05Z'']\<rparr>)
              (JObject [(''Messages'', JArray [msg_ex ''a'' ''1970-01-01T00:00:10Z'' ''A'']),
                        (''NextToken'', JString ''X'')]) 1 = Inr cxn' \<and>
      map query (map snd (soup_sess cxn')) =
        [[(''max-results'', ''50''), (''after'', ''1970-01-01T00:00:05Z''), (''next-token'', ''X'')]])"
proof -
  let ?cxn = "(cxn_with (Some []))\<lparr>account := [''last-room-R'' \<mapsto> ''1970-01-01T00:00:05Z'']\<rparr>"
  let ?a = "msg_ex ''a'' ''1970-01-01T00:00:10Z'' ''A''"
  let ?pg = "JObject [(''Messages'', JArray [?a]), (''NextToken'', JString ''X'')]"
  have h: "chats ?cxn 1 = Some (chat_ex (Some []))"
    by (simp add: cxn_with_def cxn_ex_def)
  have q: "page_query ?cxn (chat_ex (Some [])) (Some ''X'') =
      [(''max-results'', ''50''), (''after'', ''1970-01-01T00:00:05Z''), (''next-token'', ''X'')]"
    by (simp add: page_query_def cxn_with_def cxn_ex_def chat_ex_def room_ex_def)
  have s: "soup_sess ?cxn = []"
    by (simp add: cxn_with_def cxn_ex_def)
  have tk: "parse_string ?pg ''NextToken'' = Some ''X''"
    by (simp add: parse_string_def)
  have el: "json_array_elements (json_object_get_member ?pg ''Messages'') = [?a]"
    by simp
  have st: "json_array_foreach_element [?a] one_msg_cb (Some []) = Inr (Some [entry_ex ''a'' ?a])"
    by (simp add: one_msg_cb_def msg_ex_def parse_string_def g_hash_table_insert_def
        g_hash_table_lookup_node_def entry_ex_def)
  note w = after_sent_with_every_page [OF h, where tok = "Some ''X''" and nd = ?pg and t = "''X''"
      and tbl = "Some [entry_ex ''a'' ?a]" and from_iso = iso_ex and now = 0, unfolded q s el]
  from w have first: "\<exists>cxn'. fetch_chat_messages ?cxn 1 (Some ''X'') = Inr cxn' \<and>
      map query (map snd (soup_sess cxn')) =
        [[(''max-results'', ''50''), (''after'', ''1970-01-01T00:00:05Z''), (''next-token'', ''X'')]]"
    by (simp del: One_nat_def)
  from w tk st have next_page: "\<exists>cxn'. fetch_msgs_cb iso_ex 0 ?cxn ?pg 1 = Inr cxn' \<and>
      map query (map snd (soup_sess cxn')) =
        [[(''max-results'', ''50''), (''after'', ''1970-01-01T00:00:05Z''), (''next-token'', ''X'')]]"
    by (simp del: One_nat_def)
  from h first tk st next_page show ?thesis by (intro conjI)
qed

text \<open>
  Claim C6 as stated fails: with a watermark in the account, the request for the
  second page carries \<^verbatim>\<open>after\<close> next to the continuation token.
\<close>

theorem after_sent_with_next_token:
  "requests
     (run iso_ex (cxn_ex\<lparr>account := [''last-room-R'' \<mapsto> ''1970-01-01T00:00:05Z'']\<rparr>)
        [join_ex,
         Page 1 (JObject [(''Messages'', JArray [msg_ex ''a'' ''1970-01-01T00:00:10Z'' ''A'']),
                          (''NextToken'', JString ''X'')]) 100]) =
   [[(''max-results'', ''50''), (''after'', ''1970-01-01T00:00:05Z''), (''next-token'', ''X'')]]"
  by (simp add: model_defs example_defs view_defs)

text \<open>
  Claim C7. A join for a room that is unknown, or that has a chat already, returns
  without a fault and leaves the whole connection as it is: no chat is allocated, no
  request queued, no subscription added. Along every run that starts in a state
  where each chat is the chat of its room, this stays so, and no two chats in the
  store belong to the same room.
\<close>

theorem one_chat_per_room:
  "(data ''RoomId'' = Some roomid \<longrightarrow>
      rooms_by_id cxn roomid = None \<or>
      (\<exists>r. rooms_by_id cxn roomid = Some r \<and> chat (rooms cxn r) \<noteq> None) \<longrightarrow>
      chime_purple_join_chat cxn data = Inr cxn) \<and>
   (one_session_per_room cxn \<longrightarrow> run from_iso cxn es = Inr cxn' \<longrightarrow>
      one_session_per_room cxn' \<and>
      (\<forall>p q c d. chats cxn' p = Some c \<longrightarrow> chats cxn' q = Some d \<longrightarrow> room c = room d \<longrightarrow> p = q))"
proof (intro conjI impI)
  assume "data ''RoomId'' = Some roomid"
    and "rooms_by_id cxn roomid = None \<or>
      (\<exists>r. rooms_by_id cxn roomid = Some r \<and> chat (rooms cxn r) \<noteq> None)"
  then show "chime_purple_join_chat cxn data = Inr cxn"
    by (auto simp: chime_purple_join_chat_def)
next
  assume "one_session_per_room cxn" and "run from_iso cxn es = Inr cxn'"
  then show "one_session_per_room cxn'" by (rule inv_run)
  then show "\<forall>p q c d. chats cxn' p = Some c \<longrightarrow> chats cxn' q = Some d \<longrightarrow> room c = room d \<longrightarrow> p = q"
    by (blast intro: one_session_unique)
qed

theorem one_chat_per_room_witness:
  "map_of [(''RoomId'', ''R'')] ''RoomId'' = Some ''R'' \<and>
   rooms_by_id (cxn_with None) ''R'' = Some 0 \<and>
   chat (rooms (cxn_with None) 0) = Some 1 \<and>
   chime_purple_join_chat (cxn_with None) (map_of [(''RoomId'', ''R'')]) = Inr (cxn_with None) \<and>
   map_of [(''RoomId'', ''Q'')] ''RoomId'' = Some ''Q'' \<and>
   rooms_by_id cxn_ex ''Q'' = None \<and>
   chime_purple_join_chat cxn_ex (map_of [(''RoomId'', ''Q'')]) = Inr cxn_ex \<and>
   one_session_per_room cxn_ex \<and>
   (\<exists>cxn'. run iso_ex cxn_ex [join_ex, join_ex] = Inr cxn' \<and> chats cxn' 1 \<noteq> None \<and>
      chats cxn' 2 = None \<and> one_session_per_room cxn')"
proof -
  have a: "map_of [(''RoomId'', ''R'')] ''RoomId'' = Some ''R''"
    and b: "rooms_by_id (cxn_with None) ''R'' = Some 0"
    and c: "chat (rooms (cxn_with None) 0) = Some 1"
    and d: "map_of [(''RoomId'', ''Q'')] ''RoomId'' = Some ''Q''"
    and e: "rooms_by_id cxn_ex ''Q'' = None"
    and f: "one_session_per_room cxn_ex"
    by (simp_all add: cxn_with_def cxn_ex_def one_session_per_room_def)
  from join_ex_state obtain cxn' where
    r: "run iso_ex cxn_ex [join_ex, join_ex] = Inr cxn'" "chats cxn' 1 \<noteq> None" "chats cxn' 2 = None"
    by blast
  have 1: "chime_purple_join_chat (cxn_with None) (map_of [(''RoomId'', ''R'')]) = Inr (cxn_with None)"
    using one_chat_per_room [where data = "map_of [(''RoomId'', ''R'')]" and roomid = "''R''"
        and cxn = "cxn_with None" and from_iso = iso_ex and es = "[]" and cxn' = "cxn_with None"] a b c
    by simp
  have 2: "chime_purple_join_chat cxn_ex (map_of [(''RoomId'', ''Q'')]) = Inr cxn_ex"
    using one_chat_per_room [where data = "map_of [(''RoomId'', ''Q'')]" and roomid = "''Q''"
        and cxn = cxn_ex and from_iso = iso_ex and es = "[]" and cxn' = cxn_ex] d e
    by simp
  have 3: "one_session_per_room cxn'"
    using one_chat_per_room [where data = "map_of [(''RoomId'', ''Q'')]" and roomid = "''Q''"
        and cxn = cxn_ex and from_iso = iso_ex and es = "[join_ex, join_ex]" and cxn' = cxn'] f r(1)
    by blast
  from a b c d e f 1 2 3 r show ?thesis by blast
qed

text \<open>
  Claim C8 at a failing input. Room \<open>R\<close> is joined and left before any page has
  arrived. The request is cancelled, nothing is shown, no watermark is written and
  the room has no chat any more; but the entry of chat id 1 in \<open>live_chats\<close> is still
  there and points to the freed chat, because \<^verbatim>\<open>chime_destroy_chat\<close> removes the key
  made from \<^verbatim>\<open>room->id\<close> (the address 6291456 in the example) and not the one made
  from the chat id. A second leave of chat 1 finds the freed chat.
\<close>

theorem leave_keeps_live_chat:
  "live_chat (run iso_ex cxn_ex [join_ex]) 1 = Some 1 \<and>
   live_chat (run iso_ex cxn_ex [join_ex, Leave 1]) 1 = Some 1 \<and>
   chat_at (run iso_ex cxn_ex [join_ex, Leave 1]) 1 = None \<and>
   room_chat (run iso_ex cxn_ex [join_ex, Leave 1]) 0 = None \<and>
   requests (run iso_ex cxn_ex [join_ex, Leave 1]) = [] \<and>
   deliveries (run iso_ex cxn_ex [join_ex, Leave 1]) = [] \<and>
   watermark (run iso_ex cxn_ex [join_ex, Leave 1]) ''last-room-R'' = None \<and>
   run iso_ex cxn_ex [join_ex, Leave 1, Leave 1] = Inl UseAfterFree"
  by (simp add: model_defs example_defs view_defs)

text \<open>
  Claim C9, as amended. A record without \<^verbatim>\<open>MessageId\<close> is not stored, neither from
  a history page nor from the live feed. A stored record whose \<^verbatim>\<open>CreatedOn\<close> is
  missing or does not parse does not stop the drain: the drain succeeds, and it ends
  in the very state it would reach had those records never been stored. The other
  records are sorted and all of them are in the batch that the drain walks; those of
  them that have a \<^verbatim>\<open>Content\<close> are delivered, in that order, and no others.
\<close>

theorem malformed_records_are_dropped:
  assumes "chats cxn p = Some c" and "messages c = Some h"
  shows "(message_id nd = None \<longrightarrow> one_msg_cb nd (Some h) = Inr (Some h)) \<and>
         (json_object_get_member ev ''record'' = Some r \<longrightarrow> message_id r = None \<longrightarrow>
            chat_msg_cb from_iso now cxn (ChatPtr p) ev = Inr cxn) \<and>
         (\<exists>cxn'. chime_complete_chat_setup from_iso now cxn p = Inr cxn' \<and>
            chime_complete_chat_setup from_iso now
              (cxn\<lparr>chats := (chats cxn)(p \<mapsto>
                 c\<lparr>messages := Some (filter (\<lambda>e. parsable from_iso (e_value e)) h)\<rparr>)\<rparr>) p =
              Inr cxn' \<and>
            map d_node (delivered cxn') =
              map d_node (delivered cxn) @ filter has_content (drained from_iso h)) \<and>
         sorted_wrt (not_later from_iso) (drained from_iso h) \<and>
         mset (drained from_iso h) = mset (filter (parsable from_iso) (map e_value h))"
proof -
  let ?good = "filter (\<lambda>e. parsable from_iso (e_value e)) h"
  let ?c2 = "c\<lparr>messages := Some ?good\<rparr>"
  let ?cxn2 = "cxn\<lparr>chats := (chats cxn)(p \<mapsto> ?c2)\<rparr>"
  from drain_sorted_lemma [OF assms, of from_iso now]
  obtain cxn' where run: "chime_complete_chat_setup from_iso now cxn p = Inr cxn'"
    and nodes: "map d_node (delivered cxn') =
      map d_node (delivered cxn) @ filter has_content (drained from_iso h)"
    by blast
  have q: "queued_msgs from_iso (Some ?good) = queued_msgs from_iso (Some h)"
    by (simp add: queued_msgs_def foreach_remove_unparsable)
  have "chime_complete_chat_setup from_iso now ?cxn2 p =
      chime_complete_chat_setup from_iso now cxn p"
    using assms by (simp add: chime_complete_chat_setup_def Let_def q)
  with run have run2: "chime_complete_chat_setup from_iso now ?cxn2 p = Inr cxn'" by simp
  show ?thesis
    using run run2 nodes assms drained_sorted [of from_iso h] drained_mset [of from_iso h]
    by (auto simp: one_msg_cb_no_id chat_msg_cb_no_id)
qed

theorem malformed_records_are_dropped_witness:
  "chats (cxn_with (Some table_ex)) 1 = Some (chat_ex (Some table_ex)) \<and>
   messages (chat_ex (Some table_ex)) = Some table_ex \<and>
   message_id (JObject [(''Content'', JString ''Z'')]) = None \<and>
   one_msg_cb (JObject [(''Content'', JString ''Z'')]) (Some table_ex) = Inr (Some table_ex) \<and>
   chat_msg_cb iso_ex 7 (cxn_with (Some table_ex)) (ChatPtr 1)
       (push_ex (JObject [(''Content'', JString ''Z'')])) = Inr (cxn_with (Some table_ex)) \<and>
   \<not> parsable iso_ex (msg_ex ''x'' ''yesterday'' ''X'') \<and>
   map d_node (deliveries (chime_complete_chat_setup iso_ex 0 (cxn_with (Some table_ex)) 1)) =
     [msg_ex ''b'' ''1970-01-01T00:00:05Z'' ''B'', msg_ex ''a'' ''1970-01-01T00:00:10Z'' ''A''] \<and>
   chime_complete_chat_setup iso_ex 0 (cxn_with (Some table_ex)) 1 =
     chime_complete_chat_setup iso_ex 0
       (cxn_with (Some [entry_ex ''a'' (msg_ex ''a'' ''1970-01-01T00:00:10Z'' ''A''),
                        entry_ex ''b'' (msg_ex ''b'' ''1970-01-01T00:00:05Z'' ''B'')])) 1"
proof -
  let ?z = "JObject [(''Content'', JString ''Z'')]"
  let ?good = "[entry_ex ''a'' (msg_ex ''a'' ''1970-01-01T00:00:10Z'' ''A''),
                entry_ex ''b'' (msg_ex ''b'' ''1970-01-01T00:00:05Z'' ''B'')]"
  have h1: "chats (cxn_with (Some table_ex)) 1 = Some (chat_ex (Some table_ex))"
    and h2: "messages (chat_ex (Some table_ex)) = Some table_ex"
    by (rule example_chat)+
  have z: "message_id ?z = None"
    by (simp add: message_id_def parse_string_def)
  have rec: "json_object_get_member (push_ex ?z) ''record'' = Some ?z"
    by (simp add: push_ex_def)
  have x: "\<not> parsable iso_ex (msg_ex ''x'' ''yesterday'' ''X'')"
    by (simp add: parsable_def created_on_def msg_ex_def parse_string_def iso_ex_def)
  have good: "filter (\<lambda>e. parsable iso_ex (e_value e)) table_ex = ?good"
    by (simp add: table_ex_def entry_ex_def parsable_def created_on_def msg_ex_def
        parse_string_def iso_ex_def)
  have upd: "(cxn_with (Some table_ex))\<lparr>chats := (chats (cxn_with (Some table_ex)))(1 \<mapsto>
      (chat_ex (Some table_ex))\<lparr>messages := Some ?good\<rparr>)\<rparr> = cxn_with (Some ?good)"
    by (simp add: cxn_with_def cxn_ex_def chat_ex_def)
  have shown: "filter has_content (drained iso_ex table_ex) =
      [msg_ex ''b'' ''1970-01-01T00:00:05Z'' ''B'', msg_ex ''a'' ''1970-01-01T00:00:10Z'' ''A'']"
    unfolding drained_table_ex by (simp add: has_content_def msg_ex_def parse_string_def)
  from malformed_records_are_dropped [OF h1 h2,
      where nd = ?z and ev = "push_ex ?z" and r = ?z and from_iso = iso_ex and now = 7] z rec
  have a: "one_msg_cb ?z (Some table_ex) = Inr (Some table_ex)"
    and b: "chat_msg_cb iso_ex 7 (cxn_with (Some table_ex)) (ChatPtr 1) (push_ex ?z) =
      Inr (cxn_with (Some table_ex))"
    by blast+
  from malformed_records_are_dropped [OF h1 h2,
      where nd = ?z and ev = "push_ex ?z" and r = ?z and from_iso = iso_ex and now = 0]
  obtain cxn' where r1: "chime_complete_chat_setup iso_ex 0 (cxn_with (Some table_ex)) 1 = Inr cxn'"
    and r2: "chime_complete_chat_setup iso_ex 0 (cxn_with (Some ?good)) 1 = Inr cxn'"
    and r3: "map d_node (delivered cxn') = filter has_content (drained iso_ex table_ex)"
    unfolding good upd by (auto simp del: One_nat_def)
  show ?thesis
    using h1 h2 z a b x r1 r2 r3 shown by (simp add: deliveries_def del: One_nat_def)
qed

text \<open>
  Claim C9 as stated fails: the page brings \<open>x\<close>, whose \<^verbatim>\<open>CreatedOn\<close> does not
  parse, a record without \<^verbatim>\<open>MessageId\<close>, and the two other records \<open>b\<close> and \<open>a\<close>,
  whose \<^verbatim>\<open>CreatedOn\<close> parses. Of the other records \<open>b\<close> has no \<^verbatim>\<open>Content\<close>: the
  drain walks \<open>a\<close> and \<open>b\<close> and delivers \<open>a\<close> alone.
\<close>

theorem other_record_not_delivered:
  "parsable iso_ex (bare_ex ''b'' ''1970-01-01T00:00:10Z'') \<and>
   map_of (pairs table_mixed) ''b'' = Some (bare_ex ''b'' ''1970-01-01T00:00:10Z'') \<and>
   drained iso_ex table_mixed =
     [msg_ex ''a'' ''1970-01-01T00:00:05Z'' ''A'', bare_ex ''b'' ''1970-01-01T00:00:10Z''] \<and>
   delivered_ids (chime_complete_chat_setup iso_ex 0 (cxn_with (Some table_mixed)) 1) =
     [Some ''a''] \<and>
   delivered_ids
     (run iso_ex cxn_ex
        [join_ex,
         Page 1 (page_ex [msg_ex ''x'' ''yesterday'' ''X'', JObject [(''Content'', JString ''Z'')],
                          bare_ex ''b'' ''1970-01-01T00:00:10Z'',
                          msg_ex ''a'' ''1970-01-01T00:00:05Z'' ''A'']) 100]) =
     [Some ''a'']"
  unfolding drained_table_mixed
  by (simp add: model_defs example_defs view_defs cxn_with_def chat_ex_def table_mixed_def
      entry_ex_def pairs_def parsable_def created_on_def)

text \<open>
  Claim C10. A record without \<^verbatim>\<open>Content\<close> is never shown: \<^verbatim>\<open>chat_deliver_msg\<close>
  leaves the connection as it is, so a live event that carries such a record changes
  nothing, and the drain shows exactly the records of its batch that have a
  \<^verbatim>\<open>Content\<close>. When such a record is the last one of the sorted batch, its
  \<^verbatim>\<open>CreatedOn\<close> is nevertheless what the drain writes as the watermark.
\<close>

theorem contentless_record_never_shown:
  assumes "chats cxn p = Some c" and "\<not> has_content r"
  shows "chat_deliver_msg from_iso now cxn c r t = cxn \<and>
         (messages c = None \<longrightarrow> json_object_get_member ev ''record'' = Some r \<longrightarrow>
            chat_msg_cb from_iso now cxn (ChatPtr p) ev = Inr cxn) \<and>
         (messages c = Some h \<longrightarrow> drained from_iso h \<noteq> [] \<longrightarrow> last (drained from_iso h) = r \<longrightarrow>
            (\<exists>cxn' s. chime_complete_chat_setup from_iso now cxn p = Inr cxn' \<and>
               drop (length (delivered cxn)) (map d_node (delivered cxn')) =
                 filter has_content (drained from_iso h) \<and>
               r \<notin> set (drop (length (delivered cxn)) (map d_node (delivered cxn'))) \<and>
               parse_string r ''CreatedOn'' = Some s \<and>
               account cxn' (''last-room-'' @ room_id (rooms cxn (room c))) = Some s))"
proof (intro conjI impI)
  show "chat_deliver_msg from_iso now cxn c r t = cxn"
    using assms(2) by (rule chat_deliver_msg_no_content)
next
  assume "messages c = None" "json_object_get_member ev ''record'' = Some r"
  with assms show "chat_msg_cb from_iso now cxn (ChatPtr p) ev = Inr cxn"
    by (simp add: chat_msg_cb_live chat_deliver_msg_no_content)
next
  assume h: "messages c = Some h" and ne: "drained from_iso h \<noteq> []"
    and r: "last (drained from_iso h) = r"
  from drain_sorted_lemma [OF assms(1) h, of from_iso now]
  obtain cxn' where run: "chime_complete_chat_setup from_iso now cxn p = Inr cxn'"
    and nodes: "map d_node (delivered cxn') =
      map d_node (delivered cxn) @ filter has_content (drained from_iso h)"
    by blast
  from nodes have new: "drop (length (delivered cxn)) (map d_node (delivered cxn')) =
      filter has_content (drained from_iso h)"
    by (rule drop_new_deliveries)
  from watermark_lemma [OF assms(1) h, of from_iso now] run ne r
  obtain s where "parse_string r ''CreatedOn'' = Some s"
    and "account cxn' = (account cxn)(''last-room-'' @ room_id (rooms cxn (room c)) \<mapsto> s)"
    by auto
  with run new assms(2)
  show "\<exists>cxn' s. chime_complete_chat_setup from_iso now cxn p = Inr cxn' \<and>
      drop (length (delivered cxn)) (map d_node (delivered cxn')) =
        filter has_content (drained from_iso h) \<and>
      r \<notin> set (drop (length (delivered cxn)) (map d_node (delivered cxn'))) \<and>
      parse_string r ''CreatedOn'' = Some s \<and>
      account cxn' (''last-room-'' @ room_id (rooms cxn (room c))) = Some s"
    by auto
qed

theorem contentless_record_never_shown_witness:
  "chats (cxn_with None) 1 = Some (chat_ex None) \<and>
   chats (cxn_with (Some table_bare)) 1 = Some (chat_ex (Some table_bare)) \<and>
   \<not> has_content (bare_ex ''b'' ''1970-01-01T00:00:10Z'') \<and>
   last (drained iso_ex table_bare) = bare_ex ''b'' ''1970-01-01T00:00:10Z'' \<and>
   chat_msg_cb iso_ex 7 (cxn_with None) (ChatPtr 1) (push_ex (bare_ex ''b'' ''1970-01-01T00:00:10Z'')) =
     Inr (cxn_with None) \<and>
   map d_node (deliveries (chime_complete_chat_setup iso_ex 0 (cxn_with (Some table_bare)) 1)) =
     [msg_ex ''a'' ''1970-01-01T00:00:05Z'' ''A''] \<and>
   watermark (chime_complete_chat_setup iso_ex 0 (cxn_with (Some table_bare)) 1) ''last-room-R'' =
     Some ''1970-01-01T00:00:10Z''"
proof -
  let ?b = "bare_ex ''b'' ''1970-01-01T00:00:10Z''"
  have nc: "\<not> has_content ?b"
    by (simp add: has_content_def bare_ex_def parse_string_def)
  have l: "last (drained iso_ex table_bare) = ?b" and ne: "drained iso_ex table_bare \<noteq> []"
    unfolding drained_table_bare by simp_all
  have rec: "json_object_get_member (push_ex ?b) ''record'' = Some ?b"
    by (simp add: push_ex_def)
  have live: "chat_msg_cb iso_ex 7 (cxn_with None) (ChatPtr 1) (push_ex ?b) = Inr (cxn_with None)"
    using contentless_record_never_shown [OF example_chat(1) nc,
        where t1 = None and from_iso = iso_ex and now = 7 and t = 0 and ev = "push_ex ?b"] rec
    by (simp del: One_nat_def)
  from contentless_record_never_shown [OF example_chat(1) nc,
      where t1 = "Some table_bare" and from_iso = iso_ex and now = 0 and h = table_bare
        and t = 0 and ev = JNull]
    l ne
  obtain cxn' s where run: "chime_complete_chat_setup iso_ex 0 (cxn_with (Some table_bare)) 1 = Inr cxn'"
    and new: "map d_node (delivered cxn') = filter has_content (drained iso_ex table_bare)"
    and s: "parse_string ?b ''CreatedOn'' = Some s"
    and wm: "account cxn' ''last-room-R'' = Some s"
    by (auto simp del: One_nat_def)
  from s have "s = ''1970-01-01T00:00:10Z''"
    by (simp add: bare_ex_def parse_string_def)
  moreover have "filter has_content (drained iso_ex table_bare) = [msg_ex ''a'' ''1970-01-01T00:00:05Z'' ''A'']"
    unfolding drained_table_bare
    by (simp add: has_content_def bare_ex_def msg_ex_def parse_string_def)
  ultimately show ?thesis
    using run new wm nc l live by (simp add: deliveries_def watermark_def del: One_nat_def)
qed

end
